theory Spec2Isabelle
  imports Complex_Main
begin

section \<open>Errors and the retry wrapper\<close>

text \<open>
  A thrown JavaScript \<open>Error\<close> object: its \<open>name\<close> (which \<open>retryOnError\<close> inspects) and its
  \<open>message\<close>.
\<close>

datatype error = Error (name: string) (message: string)

text \<open>\<open>retryConfig\<close>: the three fields of the configuration object.\<close>

definition maxRetries :: int where
  "maxRetries = 3"

definition retryDelay :: int where
  "retryDelay = 1000"

definition retryOnError :: "error \<Rightarrow> bool" where
  "retryOnError error \<longleftrightarrow>
     name error = ''SequelizeConnectionError'' \<or>
     name error = ''SequelizeConnectionRefusedError'' \<or>
     name error = ''SequelizeHostNotFoundError'' \<or>
     name error = ''SequelizeHostNotReachableError''"

text \<open>
  An asynchronous operation is a function on the state of the outside world that either
  throws (\<open>Inl\<close>) or returns a value (\<open>Inr\<close>).  A run of \<open>withRetry\<close> carries that state and
  three observations: how often the operation was invoked, the delays (in milliseconds) of
  the \<open>setTimeout\<close> calls, and the errors caught, all in order.
\<close>

type_synonym ('s, 'a) operation = "'s \<Rightarrow> (error + 'a) \<times> 's"

record 's retry_run =
  opstate :: 's
  invocations :: nat
  sleeps :: "int list"
  caught :: "error list"

text \<open>
  The \<open>for\<close> loop of \<open>withRetry\<close>, entered at \<open>attempt\<close>.  The value thrown is
  \<open>Some error\<close>, or \<open>None\<close> for the \<open>undefined\<close> that \<open>throw lastError\<close> throws when the loop
  body never ran.
\<close>

function withRetry_loop ::
  "('s, 'a) operation \<Rightarrow> int \<Rightarrow> int \<Rightarrow> error option \<Rightarrow> 's retry_run
     \<Rightarrow> (error option + 'a) \<times> 's retry_run" where
  "withRetry_loop operation maxR attempt lastError r =
     (if attempt \<le> maxR then
        (case operation (opstate r) of
           (Inr v, s') \<Rightarrow> (Inr v, r\<lparr>opstate := s', invocations := Suc (invocations r)\<rparr>)
         | (Inl error, s') \<Rightarrow>
             (let r' = r\<lparr>opstate := s', invocations := Suc (invocations r),
                         caught := caught r @ [error]\<rparr>
              in if retryOnError error \<and> attempt < maxR
                 then withRetry_loop operation maxR (attempt + 1) (Some error)
                        (r'\<lparr>sleeps := sleeps r' @ [retryDelay * attempt]\<rparr>)
                 else (Inl (Some error), r')))
      else (Inl lastError, r))"
  by pat_completeness auto
termination
  by (relation "measure (\<lambda>(operation, maxR, attempt, lastError, r). nat (maxR + 1 - attempt))") auto

declare withRetry_loop.simps [simp del]

definition start_run :: "'s \<Rightarrow> 's retry_run" where
  "start_run s = \<lparr>opstate = s, invocations = 0, sleeps = [], caught = []\<rparr>"

text \<open>\<open>withRetry(operation, maxRetries)\<close> with the second argument given.\<close>

definition withRetry_n :: "('s, 'a) operation \<Rightarrow> int \<Rightarrow> 's \<Rightarrow> (error option + 'a) \<times> 's retry_run" where
  "withRetry_n operation maxR s = withRetry_loop operation maxR 1 None (start_run s)"

text \<open>\<open>withRetry(operation)\<close>: the default argument \<open>retryConfig.maxRetries\<close>.\<close>

definition withRetry :: "('s, 'a) operation \<Rightarrow> 's \<Rightarrow> (error option + 'a) \<times> 's retry_run" where
  "withRetry operation s = withRetry_n operation maxRetries s"


section \<open>JavaScript values and strings\<close>

text \<open>
  The values a setter can receive.  A string is a list of code units; the model covers the
  code units below 256 (Latin-1), which is what \<open>char\<close> holds.
\<close>

datatype jsval =
    Undefined
  | Null
  | Boolean bool
  | Number int
  | String string
  | Array "jsval list"

text \<open>Truthiness, as \<open>!value\<close> and \<open>word && ...\<close> test it.\<close>

fun truthy :: "jsval \<Rightarrow> bool" where
  "truthy Undefined = False"
| "truthy Null = False"
| "truthy (Boolean b) = b"
| "truthy (Number n) = (n \<noteq> 0)"
| "truthy (String s) = (s \<noteq> [])"
| "truthy (Array vs) = True"

fun typeof :: "jsval \<Rightarrow> string" where
  "typeof Undefined = ''undefined''"
| "typeof Null = ''object''"
| "typeof (Boolean b) = ''boolean''"
| "typeof (Number n) = ''number''"
| "typeof (String s) = ''string''"
| "typeof (Array vs) = ''object''"

text \<open>
  \<open>String.prototype.toLowerCase\<close> on Latin-1: the letters A to Z and the accented capitals
  U+00C0 to U+00DE (without the multiplication sign U+00D7) move up by 32.
\<close>

definition lower_char :: "char \<Rightarrow> char" where
  "lower_char c =
     (let n = (of_char c :: nat)
      in if (65 \<le> n \<and> n \<le> 90) \<or> (192 \<le> n \<and> n \<le> 214) \<or> (216 \<le> n \<and> n \<le> 222)
         then char_of (n + 32) else c)"

definition toLowerCase :: "string \<Rightarrow> string" where
  "toLowerCase s = map lower_char s"

text \<open>
  \<open>String.prototype.trim\<close> removes white space and line terminators from both ends; below
  256 these are tab, line feed, vertical tab, form feed, carriage return, space and the
  no-break space U+00A0.
\<close>

definition is_space :: "char \<Rightarrow> bool" where
  "is_space c \<longleftrightarrow> (of_char c :: nat) \<in> {9, 10, 11, 12, 13, 32, 160}"

definition trim :: "string \<Rightarrow> string" where
  "trim s = rev (dropWhile is_space (rev (dropWhile is_space s)))"

section \<open>The GuildConfig model\<close>

text \<open>
  The words that survive \<open>value.filter(word => word && typeof word === 'string')\<close>, as
  strings.
\<close>

definition string_words :: "jsval list \<Rightarrow> string list" where
  "string_words vs =
     [s. String s \<leftarrow> filter (\<lambda>word. truthy word \<and> typeof word = ''string'') vs]"

text \<open>The setter of \<open>triggerWords\<close>: the list handed to \<open>setDataValue\<close>.\<close>

definition GuildConfig_set_triggerWords :: "jsval \<Rightarrow> string list" where
  "GuildConfig_set_triggerWords v =
     (case v of
        Array vs \<Rightarrow>
          filter (\<lambda>word. length word > 0)
            (map (\<lambda>word. trim (toLowerCase word)) (string_words vs))
      | _ \<Rightarrow> [])"

text \<open>The getter of \<open>triggerWords\<close> on a stored list of strings.\<close>

definition GuildConfig_get_triggerWords :: "string list \<Rightarrow> string list" where
  "GuildConfig_get_triggerWords ws = filter (\<lambda>word. word \<noteq> []) ws"

section \<open>The Streak model\<close>

text \<open>
  An instance of the model: its data values and the set of attribute names the ORM reports
  as changed since the instance was loaded (\<open>streak.changed('count')\<close>).  The primary key is
  absent until the row is inserted; \<open>lastStreakDate\<close> is the only attribute that allows
  null.
\<close>

record Streak =
  id_col :: "int option"
  guildId :: string
  userId :: string
  triggerWord :: string
  count :: int
  bestStreak :: int
  streakStreak :: int
  lastStreakDate :: "string option"
  lastUpdated :: int
  changed :: "string set"

text \<open>The setter of \<open>triggerWord\<close>: it throws, or yields the string that is stored.\<close>

definition Streak_set_triggerWord :: "jsval \<Rightarrow> error + string" where
  "Streak_set_triggerWord v =
     (if \<not> truthy v \<or> typeof v \<noteq> ''string''
      then Inl (Error ''Error'' ''Trigger word must be a non-empty string'')
      else (case v of
              String s \<Rightarrow> Inr (trim (toLowerCase s))
            | _ \<Rightarrow> Inl (Error ''Error'' ''Trigger word must be a non-empty string'')))"

text \<open>The \<open>beforeSave\<close> hook.\<close>

definition beforeSave :: "Streak \<Rightarrow> Streak" where
  "beforeSave streak =
     (if ''count'' \<in> changed streak \<and> count streak > bestStreak streak
      then streak\<lparr>bestStreak := count streak,
                  changed := insert ''bestStreak'' (changed streak)\<rparr>
      else streak)"

text \<open>
  Assignments to an instance (\<open>streak.count = n\<close>): the ORM stores the value and marks the
  attribute as changed when the value differs from the one held.
\<close>

definition assign_count :: "int \<Rightarrow> Streak \<Rightarrow> Streak" where
  "assign_count n streak =
     streak\<lparr>count := n,
            changed := (if n \<noteq> count streak then insert ''count'' (changed streak)
                        else changed streak)\<rparr>"

definition assign_bestStreak :: "int \<Rightarrow> Streak \<Rightarrow> Streak" where
  "assign_bestStreak n streak =
     streak\<lparr>bestStreak := n,
            changed := (if n \<noteq> bestStreak streak then insert ''bestStreak'' (changed streak)
                        else changed streak)\<rparr>"

text \<open>
  The attributes of the model definition that decide constraints and defaults: one entry per
  attribute of \<open>sequelize.define('Streak', ...)\<close>, with the options that the source gives
  (\<open>unique\<close> is given nowhere, and the definition has no \<open>indexes\<close> option).
\<close>

record attribute =
  field :: string
  primaryKey :: bool
  autoIncrement :: bool
  allowNull :: bool
  unique :: bool

definition Streak_attributes :: "attribute list" where
  "Streak_attributes =
     [\<lparr>field = ''id'', primaryKey = True, autoIncrement = True, allowNull = True, unique = False\<rparr>,
      \<lparr>field = ''guildId'', primaryKey = False, autoIncrement = False, allowNull = False, unique = False\<rparr>,
      \<lparr>field = ''userId'', primaryKey = False, autoIncrement = False, allowNull = False, unique = False\<rparr>,
      \<lparr>field = ''triggerWord'', primaryKey = False, autoIncrement = False, allowNull = False, unique = False\<rparr>,
      \<lparr>field = ''count'', primaryKey = False, autoIncrement = False, allowNull = False, unique = False\<rparr>,
      \<lparr>field = ''bestStreak'', primaryKey = False, autoIncrement = False, allowNull = False, unique = False\<rparr>,
      \<lparr>field = ''streakStreak'', primaryKey = False, autoIncrement = False, allowNull = False, unique = False\<rparr>,
      \<lparr>field = ''lastStreakDate'', primaryKey = False, autoIncrement = False, allowNull = True, unique = False\<rparr>,
      \<lparr>field = ''lastUpdated'', primaryKey = False, autoIncrement = False, allowNull = False, unique = False\<rparr>]"


text \<open>Column values, as the database holds them and as a raw query returns them.\<close>

datatype val = VNull | VBool bool | VInt int | VStr string

text \<open>The value of an attribute of an instance, by the attribute's name.\<close>

definition Streak_get :: "string \<Rightarrow> Streak \<Rightarrow> val" where
  "Streak_get f streak =
     (if f = ''id'' then (case id_col streak of None \<Rightarrow> VNull | Some i \<Rightarrow> VInt i)
      else if f = ''guildId'' then VStr (guildId streak)
      else if f = ''userId'' then VStr (userId streak)
      else if f = ''triggerWord'' then VStr (triggerWord streak)
      else if f = ''count'' then VInt (count streak)
      else if f = ''bestStreak'' then VInt (bestStreak streak)
      else if f = ''streakStreak'' then VInt (streakStreak streak)
      else if f = ''lastStreakDate'' then
        (case lastStreakDate streak of None \<Rightarrow> VNull | Some d \<Rightarrow> VStr d)
      else if f = ''lastUpdated'' then VInt (lastUpdated streak)
      else VNull)"

text \<open>
  The uniqueness constraints that a model definition declares: the primary key (all
  attributes marked \<open>primaryKey\<close>, together) and every attribute marked \<open>unique\<close>.
\<close>

definition unique_keys :: "attribute list \<Rightarrow> string list list" where
  "unique_keys attrs =
     [map field (filter primaryKey attrs)] @ [[field a]. a \<leftarrow> attrs, unique a]"

text \<open>
  The values handed to \<open>Streak.create\<close>; \<open>None\<close> is a key that the caller leaves out.
\<close>

record Streak_values =
  v_id :: "int option"
  v_guildId :: "string option"
  v_userId :: "string option"
  v_triggerWord :: "jsval option"
  v_count :: "int option"
  v_bestStreak :: "int option"
  v_streakStreak :: "int option"
  v_lastStreakDate :: "string option"
  v_lastUpdated :: "int option"

definition notNull_violation :: error where
  "notNull_violation = Error ''SequelizeValidationError'' ''notNull Violation''"

text \<open>
  Building an instance: the setter of \<open>triggerWord\<close> runs on the value given (and may
  throw), attributes left out take their \<open>defaultValue\<close> (\<open>now\<close> stands for
  \<open>DataTypes.NOW\<close>), and an attribute with \<open>allowNull: false\<close> and no value fails validation.
  The attributes given are the changed ones.
\<close>

definition given_keys :: "Streak_values \<Rightarrow> string set" where
  "given_keys vs =
     (if v_id vs = None then {} else {''id''}) \<union>
     (if v_guildId vs = None then {} else {''guildId''}) \<union>
     (if v_userId vs = None then {} else {''userId''}) \<union>
     (if v_triggerWord vs = None then {} else {''triggerWord''}) \<union>
     (if v_count vs = None then {} else {''count''}) \<union>
     (if v_bestStreak vs = None then {} else {''bestStreak''}) \<union>
     (if v_streakStreak vs = None then {} else {''streakStreak''}) \<union>
     (if v_lastStreakDate vs = None then {} else {''lastStreakDate''}) \<union>
     (if v_lastUpdated vs = None then {} else {''lastUpdated''})"

definition Streak_build :: "int \<Rightarrow> Streak_values \<Rightarrow> error + Streak" where
  "Streak_build now vs =
     (case (case v_triggerWord vs of
              None \<Rightarrow> Inr None
            | Some v \<Rightarrow> (case Streak_set_triggerWord v of
                          Inl e \<Rightarrow> Inl e
                        | Inr w \<Rightarrow> Inr (Some w))) of
        Inl e \<Rightarrow> Inl e
      | Inr word \<Rightarrow>
          (case (v_guildId vs, v_userId vs, word) of
             (Some g, Some u, Some w) \<Rightarrow>
               Inr \<lparr>id_col = v_id vs, guildId = g, userId = u, triggerWord = w,
                    count = (case v_count vs of None \<Rightarrow> 1 | Some n \<Rightarrow> n),
                    bestStreak = (case v_bestStreak vs of None \<Rightarrow> 1 | Some n \<Rightarrow> n),
                    streakStreak = (case v_streakStreak vs of None \<Rightarrow> 0 | Some n \<Rightarrow> n),
                    lastStreakDate = v_lastStreakDate vs,
                    lastUpdated = (case v_lastUpdated vs of None \<Rightarrow> now | Some t \<Rightarrow> t),
                    changed = given_keys vs\<rparr>
           | _ \<Rightarrow> Inl notNull_violation))"

text \<open>
  The Streaks table as the model layer sees it: typed rows and the sequence behind the
  auto-incremented primary key.
\<close>

record Streak_table =
  streak_rows :: "Streak list"
  next_id :: int

definition empty_Streak_table :: Streak_table where
  "empty_Streak_table = \<lparr>streak_rows = [], next_id = 1\<rparr>"

definition conflicts :: "string list \<Rightarrow> Streak \<Rightarrow> Streak list \<Rightarrow> bool" where
  "conflicts key streak rs \<longleftrightarrow>
     (\<exists>r \<in> set rs. \<forall>f \<in> set key. Streak_get f r = Streak_get f streak)"

text \<open>
  \<open>Streak.create(values)\<close>: build, run the \<open>beforeSave\<close> hook, and insert.  The database
  takes the next value of the sequence when no id is given and rejects a row that repeats
  an existing row on one of the declared unique keys.
\<close>

definition Streak_create ::
  "int \<Rightarrow> Streak_values \<Rightarrow> Streak_table \<Rightarrow> (error + Streak) \<times> Streak_table" where
  "Streak_create now vs tbl =
     (case Streak_build now vs of
        Inl e \<Rightarrow> (Inl e, tbl)
      | Inr built \<Rightarrow>
          (let hooked = beforeSave built;
               tbl' = (if id_col hooked = None then tbl\<lparr>next_id := next_id tbl + 1\<rparr> else tbl);
               stored = hooked\<lparr>id_col := Some (case id_col hooked of
                                                   None \<Rightarrow> next_id tbl | Some i \<Rightarrow> i),
                               changed := {}\<rparr>
           in if \<exists>key \<in> set (unique_keys Streak_attributes).
                   conflicts key stored (streak_rows tbl)
              then (Inl (Error ''SequelizeUniqueConstraintError'' ''Validation error''), tbl')
              else (Inr stored, tbl'\<lparr>streak_rows := streak_rows tbl @ [stored]\<rparr>)))"

text \<open>A sequence of \<open>create\<close> calls; a call that throws leaves the rows as they are.\<close>

fun create_all :: "int \<Rightarrow> Streak_values list \<Rightarrow> Streak_table \<Rightarrow> Streak_table" where
  "create_all now [] tbl = tbl"
| "create_all now (vs # rest) tbl = create_all now rest (snd (Streak_create now vs tbl))"

text \<open>
  \<open>streak.save()\<close> on a loaded instance: the hook runs, and the row with the instance's id
  takes the instance's values.
\<close>

definition Streak_save :: "Streak \<Rightarrow> Streak_table \<Rightarrow> Streak \<times> Streak_table" where
  "Streak_save streak tbl =
     (let stored = (beforeSave streak)\<lparr>changed := {}\<rparr>
      in (stored,
          tbl\<lparr>streak_rows :=
                 map (\<lambda>r. if id_col r = id_col streak then stored else r) (streak_rows tbl)\<rparr>))"

section \<open>The raid bonus\<close>

text \<open>
  Modelled from the spec: the progressive bonus of the raid command, whose code is not among
  the sources.  The tiers are those of the specification's success-chance computation, with
  the upper ends 24, 49, 74 and 99 inside their tiers, as the specification's testable
  property (24 gives 0.03) and the README's table (10-24, 25-49, 50-74, 75-99, 100+) have
  them.
\<close>

definition progressiveBonus :: "int \<Rightarrow> rat" where
  "progressiveBonus targetCount =
     (if targetCount \<ge> 100 then 15 / 100
      else if targetCount \<ge> 75 then 12 / 100
      else if targetCount \<ge> 50 then 9 / 100
      else if targetCount \<ge> 25 then 6 / 100
      else if targetCount \<ge> 10 then 3 / 100
      else 0)"


section \<open>The database behind the raw queries\<close>

text \<open>
  The migration talks to the database in SQL text.  A table is its list of column names and
  its rows, a row an association list from column names to values, and the database a map
  from table names to tables.
\<close>

type_synonym row = "(string \<times> val) list"

record table =
  columns :: "string list"
  rows :: "row list"

type_synonym database = "string \<rightharpoonup> table"

text \<open>
  One constructor for each statement the source sends: \<open>sequelize.transaction()\<close>,
  \<open>transaction.commit()\<close>, \<open>transaction.rollback()\<close>, the two \<open>SELECT EXISTS\<close> queries on
  \<open>information_schema\<close>, \<open>SELECT * FROM\<close>, \<open>ALTER TABLE ... ADD COLUMN\<close> (table, column, type
  text), the \<open>UPDATE\<close> of \<open>bestStreak\<close>, \<open>DELETE FROM\<close>, \<open>INSERT INTO\<close> (table, columns, one
  list of values per row, where \<open>None\<close> is JavaScript's \<open>undefined\<close>) and \<open>sequelize.sync\<close>.
\<close>

datatype statement =
    StartTransaction
  | Commit
  | Rollback
  | SelectTableExists string
  | SelectColumnExists string string
  | SelectAll string
  | AlterTableAddColumn string string string
  | UpdateBestStreak
  | DeleteFrom string
  | InsertInto string "string list" "val option list list"
  | Sync

datatype result = Exists bool | Rows "row list" | Done

text \<open>
  The world of the migration: the committed database, which every connection sees; the
  database as the open transaction sees it (\<open>None\<close> when the transaction object is finished
  or was never started); the faults still to come, one entry for each round trip to the
  server (\<open>Some e\<close> makes that round trip fail with \<open>e\<close>, and a list that has run out means no
  fault); the statements sent so far, each with whether it succeeded; and the lines written
  to the console.
\<close>

record world =
  committed :: database
  transaction :: "database option"
  faults :: "error option list"
  trace :: "(statement \<times> bool) list"
  console :: "string list"

text \<open>
  An asynchronous computation either rejects with an error or resolves with a value, and
  changes the world.  \<open>await m k\<close> is \<open>const x = await m; k x\<close>, \<open>try_catch m h\<close> is
  \<open>try { m } catch (error) { h error }\<close>.
\<close>

type_synonym 'a io = "world \<Rightarrow> (error + 'a) \<times> world"

definition return :: "'a \<Rightarrow> 'a io" where
  "return x w = (Inr x, w)"

definition throw :: "error \<Rightarrow> 'a io" where
  "throw e w = (Inl e, w)"

definition await :: "'a io \<Rightarrow> ('a \<Rightarrow> 'b io) \<Rightarrow> 'b io" where
  "await m k w = (case m w of (Inl e, w') \<Rightarrow> (Inl e, w') | (Inr x, w') \<Rightarrow> k x w')"

definition try_catch :: "'a io \<Rightarrow> (error \<Rightarrow> 'a io) \<Rightarrow> 'a io" where
  "try_catch m h w = (case m w of (Inl e, w') \<Rightarrow> h e w' | (Inr x, w') \<Rightarrow> (Inr x, w'))"

definition console_log :: "string \<Rightarrow> unit io" where
  "console_log msg w = (Inr (), w\<lparr>console := console w @ [msg]\<rparr>)"

definition database_error :: error where
  "database_error = Error ''SequelizeDatabaseError'' ''statement rejected''"

definition finished_error :: error where
  "finished_error = Error ''Error'' ''Transaction cannot be used because it has been finished''"

text \<open>
  The value that existing rows take in a column added with the given type text: its
  \<open>DEFAULT\<close> where the model evaluates one, null otherwise.
\<close>

definition column_default :: "string \<Rightarrow> val" where
  "column_default ty =
     (if ty = ''BOOLEAN NOT NULL DEFAULT true'' then VBool True
      else if ty = ''INTEGER NOT NULL DEFAULT 0'' then VInt 0
      else if ty = ''INTEGER NOT NULL DEFAULT 1'' then VInt 1
      else VNull)"

text \<open>
  \<open>SET "bestStreak" = "count" WHERE "bestStreak" < "count"\<close> on one row; a comparison with
  null is not true, so such a row stays.
\<close>

definition fix_bestStreak :: "row \<Rightarrow> row" where
  "fix_bestStreak r =
     (case (map_of r ''bestStreak'', map_of r ''count'') of
        (Some (VInt b), Some (VInt c)) \<Rightarrow>
          if b < c then map (\<lambda>(k, v). if k = ''bestStreak'' then (k, VInt c) else (k, v)) r
          else r
      | _ \<Rightarrow> r)"

text \<open>
  What a statement does to a database when the server accepts it, and when it rejects it:
  a table or column that is missing, a column that is already there, a value that is
  \<open>undefined\<close>.
\<close>

fun run_statement :: "statement \<Rightarrow> database \<Rightarrow> error + result \<times> database" where
  "run_statement (SelectTableExists t) d = Inr (Exists (d t \<noteq> None), d)"
| "run_statement (SelectColumnExists t c) d =
     Inr (Exists (case d t of None \<Rightarrow> False | Some tb \<Rightarrow> c \<in> set (columns tb)), d)"
| "run_statement (SelectAll t) d =
     (case d t of None \<Rightarrow> Inl database_error | Some tb \<Rightarrow> Inr (Rows (rows tb), d))"
| "run_statement (AlterTableAddColumn t c ty) d =
     (case d t of
        None \<Rightarrow> Inl database_error
      | Some tb \<Rightarrow>
          if c \<in> set (columns tb) then Inl database_error
          else Inr (Done, d(t \<mapsto> tb\<lparr>columns := columns tb @ [c],
                                      rows := map (\<lambda>r. r @ [(c, column_default ty)]) (rows tb)\<rparr>)))"
| "run_statement UpdateBestStreak d =
     (case d ''Streaks'' of
        None \<Rightarrow> Inl database_error
      | Some tb \<Rightarrow>
          if ''bestStreak'' \<in> set (columns tb) \<and> ''count'' \<in> set (columns tb)
          then Inr (Done, d(''Streaks'' \<mapsto> tb\<lparr>rows := map fix_bestStreak (rows tb)\<rparr>))
          else Inl database_error)"
| "run_statement (DeleteFrom t) d =
     (case d t of
        None \<Rightarrow> Inl database_error
      | Some tb \<Rightarrow> Inr (Done, d(t \<mapsto> tb\<lparr>rows := []\<rparr>)))"
| "run_statement (InsertInto t cols vals) d =
     (case d t of
        None \<Rightarrow> Inl database_error
      | Some tb \<Rightarrow>
          if set cols \<subseteq> set (columns tb) \<and> (\<forall>vs \<in> set vals. None \<notin> set vs)
          then Inr (Done, d(t \<mapsto> tb\<lparr>rows := rows tb @
                                      map (\<lambda>vs. zip cols (map the vs)) vals\<rparr>))
          else Inl database_error)"
| "run_statement Sync d =
     Inr (Done,
          (let d1 = (if d ''GuildConfigs'' = None
                     then d(''GuildConfigs'' \<mapsto>
                            \<lparr>columns = [''guildId'', ''triggerWords'', ''streakLimit'',
                                        ''streakStreakEnabled''], rows = []\<rparr>)
                     else d)
           in if d1 ''Streaks'' = None
              then d1(''Streaks'' \<mapsto> \<lparr>columns = map field Streak_attributes, rows = []\<rparr>)
              else d1))"
| "run_statement StartTransaction d = Inr (Done, d)"
| "run_statement Commit d = Inr (Done, d)"
| "run_statement Rollback d = Inr (Done, d)"

text \<open>The fault, if any, that the next round trip meets.\<close>

definition pending :: "world \<Rightarrow> error option" where
  "pending w = (case faults w of [] \<Rightarrow> None | f # fs \<Rightarrow> f)"

definition sent :: "statement \<Rightarrow> bool \<Rightarrow> world \<Rightarrow> world" where
  "sent st ok w = w\<lparr>faults := tl (faults w), trace := trace w @ [(st, ok)]\<rparr>"

text \<open>
  \<open>sequelize.query(sql, options)\<close>.  With \<open>{ transaction }\<close> among the options
  (\<open>in_tx\<close>) the statement runs inside the transaction and sees and changes the
  transaction's database; a finished transaction rejects it.  Without, it runs on a
  connection of its own, on the committed database.
\<close>

definition query :: "statement \<Rightarrow> bool \<Rightarrow> result io" where
  "query st in_tx w =
     (if in_tx then
        (case transaction w of
           None \<Rightarrow> (Inl finished_error, w)
         | Some d \<Rightarrow>
             (case pending w of
                Some e \<Rightarrow> (Inl e, sent st False w)
              | None \<Rightarrow>
                  (case run_statement st d of
                     Inl e \<Rightarrow> (Inl e, sent st False w)
                   | Inr (res, d') \<Rightarrow> (Inr res, sent st True (w\<lparr>transaction := Some d'\<rparr>)))))
      else
        (case pending w of
           Some e \<Rightarrow> (Inl e, sent st False w)
         | None \<Rightarrow>
             (case run_statement st (committed w) of
                Inl e \<Rightarrow> (Inl e, sent st False w)
              | Inr (res, d') \<Rightarrow> (Inr res, sent st True (w\<lparr>committed := d'\<rparr>)))))"

text \<open>
  The transaction object.  \<open>sequelize.transaction()\<close> opens a transaction on the committed
  database.  \<open>commit\<close> and \<open>rollback\<close> throw on a finished transaction without a round trip;
  otherwise the transaction is finished whatever the answer, and only a commit that
  succeeds publishes the transaction's database.
\<close>

definition sequelize_transaction :: "unit io" where
  "sequelize_transaction w =
     (case pending w of
        Some e \<Rightarrow> (Inl e, sent StartTransaction False w)
      | None \<Rightarrow> (Inr (), sent StartTransaction True (w\<lparr>transaction := Some (committed w)\<rparr>)))"

definition transaction_commit :: "unit io" where
  "transaction_commit w =
     (case transaction w of
        None \<Rightarrow> (Inl finished_error, w)
      | Some d \<Rightarrow>
          (case pending w of
             Some e \<Rightarrow> (Inl e, sent Commit False (w\<lparr>transaction := None\<rparr>))
           | None \<Rightarrow> (Inr (), sent Commit True (w\<lparr>committed := d, transaction := None\<rparr>))))"

definition transaction_rollback :: "unit io" where
  "transaction_rollback w =
     (case transaction w of
        None \<Rightarrow> (Inl finished_error, w)
      | Some d \<Rightarrow>
          (case pending w of
             Some e \<Rightarrow> (Inl e, sent Rollback False (w\<lparr>transaction := None\<rparr>))
           | None \<Rightarrow> (Inr (), sent Rollback True (w\<lparr>transaction := None\<rparr>))))"


section \<open>The migration\<close>

text \<open>The helpers; \<open>result[0].exists\<close> is the boolean of the \<open>SELECT EXISTS\<close> answer.\<close>

definition checkTableExists :: "string \<Rightarrow> bool io" where
  "checkTableExists tableName =
     try_catch
       (await (query (SelectTableExists tableName) False) (\<lambda>result.
          return (case result of Exists b \<Rightarrow> b | _ \<Rightarrow> False)))
       (\<lambda>error.
          await (console_log (''Error checking if table '' @ tableName @ '' exists:'')) (\<lambda>_.
          return False))"

definition checkColumnExists :: "string \<Rightarrow> string \<Rightarrow> bool io" where
  "checkColumnExists tableName columnName =
     try_catch
       (await (query (SelectColumnExists tableName columnName) False) (\<lambda>result.
          return (case result of Exists b \<Rightarrow> b | _ \<Rightarrow> False)))
       (\<lambda>error.
          await (console_log (''Error checking if column '' @ columnName @
                              '' exists in table '' @ tableName @ '':'')) (\<lambda>_.
          return False))"

definition backupTable :: "string \<Rightarrow> row list io" where
  "backupTable tableName =
     try_catch
       (await (query (SelectAll tableName) True) (\<lambda>result.
          return (case result of Rows rs \<Rightarrow> rs | _ \<Rightarrow> [])))
       (\<lambda>error.
          await (console_log (''Error backing up table '' @ tableName @ '':'')) (\<lambda>_.
          throw error))"

definition restoreFromBackup :: "row list \<Rightarrow> string \<Rightarrow> unit io" where
  "restoreFromBackup backup tableName =
     try_catch
       (await (query (DeleteFrom tableName) False) (\<lambda>_.
          (case backup of
             [] \<Rightarrow> return ()
           | first # _ \<Rightarrow>
               (let cols = map fst first;
                    vals = map (\<lambda>r. map (\<lambda>col. map_of r col) cols) backup
                in await (query (InsertInto tableName cols vals) False) (\<lambda>_. return ())))))
       (\<lambda>error.
          await (console_log (''Error restoring table '' @ tableName @ '' from backup:'')) (\<lambda>_.
          throw error))"

text \<open>The array \<open>columnsToAdd\<close> and the entries of the object \<open>requiredColumns\<close>, in order.\<close>

definition columnsToAdd :: "(string \<times> string) list" where
  "columnsToAdd =
     [(''streakStreak'', ''INTEGER NOT NULL DEFAULT 0''),
      (''lastStreakDate'', ''DATE''),
      (''bestStreak'', ''INTEGER NOT NULL DEFAULT 1'')]"

definition requiredColumns :: "(string \<times> string) list" where
  "requiredColumns =
     [(''id'', ''INTEGER PRIMARY KEY''),
      (''guildId'', ''STRING NOT NULL''),
      (''userId'', ''STRING NOT NULL''),
      (''triggerWord'', ''STRING NOT NULL''),
      (''count'', ''INTEGER NOT NULL DEFAULT 1''),
      (''bestStreak'', ''INTEGER NOT NULL DEFAULT 1''),
      (''streakStreak'', ''INTEGER NOT NULL DEFAULT 0''),
      (''lastStreakDate'', ''DATE''),
      (''lastUpdated'', ''DATE NOT NULL DEFAULT CURRENT_TIMESTAMP'')]"

text \<open>The two \<open>for\<close> loops over these lists.\<close>

fun columnsToAdd_loop :: "(string \<times> string) list \<Rightarrow> unit io" where
  "columnsToAdd_loop [] = return ()"
| "columnsToAdd_loop ((column_name, column_type) # rest) =
     await (checkColumnExists ''Streaks'' column_name) (\<lambda>exists.
     await (if \<not> exists
            then await (query (AlterTableAddColumn ''Streaks'' column_name column_type) True) (\<lambda>_.
                 console_log (''Added '' @ column_name @ '' column to Streaks''))
            else return ()) (\<lambda>_.
     columnsToAdd_loop rest))"

fun requiredColumns_loop :: "(string \<times> string) list \<Rightarrow> unit io" where
  "requiredColumns_loop [] = return ()"
| "requiredColumns_loop ((columnName, columnType) # rest) =
     await (checkColumnExists ''Streaks'' columnName) (\<lambda>exists.
     await (if \<not> exists
            then await (query (AlterTableAddColumn ''Streaks'' columnName columnType) True) (\<lambda>_.
                 console_log (''Added missing column '' @ columnName @ '' to Streaks''))
            else return ()) (\<lambda>_.
     requiredColumns_loop rest))"

text \<open>The body of the inner \<open>try\<close> block of \<open>migrateDatabase\<close>.\<close>

definition migration_steps :: "unit io" where
  "migration_steps =
     await (console_log ''Migrating GuildConfigs table...'') (\<lambda>_.
     await (checkColumnExists ''GuildConfigs'' ''streakStreakEnabled'') (\<lambda>hasStreakStreakEnabled.
     await (if \<not> hasStreakStreakEnabled
            then await (query (AlterTableAddColumn ''GuildConfigs'' ''streakStreakEnabled''
                                 ''BOOLEAN NOT NULL DEFAULT true'') True) (\<lambda>_.
                 console_log ''Added streakStreakEnabled column to GuildConfigs'')
            else return ()) (\<lambda>_.
     await (console_log ''Migrating Streaks table...'') (\<lambda>_.
     await (columnsToAdd_loop columnsToAdd) (\<lambda>_.
     await (console_log ''Updating existing streaks...'') (\<lambda>_.
     await (query UpdateBestStreak True) (\<lambda>_.
     await (requiredColumns_loop requiredColumns) (\<lambda>_.
     await transaction_commit (\<lambda>_.
     console_log ''Migration completed successfully'')))))))))"

text \<open>The handler of the inner \<open>catch\<close>, given the two backups.\<close>

definition migration_failed :: "row list \<Rightarrow> row list \<Rightarrow> error \<Rightarrow> unit io" where
  "migration_failed guildConfigBackup streaksBackup error =
     await transaction_rollback (\<lambda>_.
     await (console_log ''Migration failed, rolling back changes:'') (\<lambda>_.
     try_catch
       (await (restoreFromBackup guildConfigBackup ''GuildConfigs'') (\<lambda>_.
        await (restoreFromBackup streaksBackup ''Streaks'') (\<lambda>_.
        console_log ''Successfully restored from backups'')))
       (\<lambda>restoreError. console_log ''Failed to restore from backups:'')))"

text \<open>The outer \<open>try\<close> and \<open>catch\<close> of \<open>migrateDatabase\<close>, entered once the transaction exists.\<close>

definition migrateDatabase_try :: "unit io" where
  "migrateDatabase_try =
     try_catch
       (await (console_log ''Starting database migration...'') (\<lambda>_.
        await (checkTableExists ''GuildConfigs'') (\<lambda>guildConfigExists.
        await (checkTableExists ''Streaks'') (\<lambda>streaksExists.
        if \<not> guildConfigExists \<or> \<not> streaksExists
        then await (console_log ''Tables do not exist, skipping migration'') (\<lambda>_.
             transaction_commit)
        else await (console_log ''Creating backups...'') (\<lambda>_.
             await (backupTable ''GuildConfigs'') (\<lambda>guildConfigBackup.
             await (backupTable ''Streaks'') (\<lambda>streaksBackup.
             try_catch migration_steps
               (migration_failed guildConfigBackup streaksBackup))))))))
       (\<lambda>error.
          await (console_log ''Migration failed:'') (\<lambda>_.
          await transaction_rollback (\<lambda>_.
          throw error)))"

definition migrateDatabase :: "unit io" where
  "migrateDatabase = await sequelize_transaction (\<lambda>_. migrateDatabase_try)"

definition sequelize_sync :: "unit io" where
  "sequelize_sync = await (query Sync False) (\<lambda>_. return ())"

definition initializeDatabase :: "unit io" where
  "initializeDatabase =
     try_catch
       (await (console_log ''Starting database initialization...'') (\<lambda>_.
        await migrateDatabase (\<lambda>_.
        await sequelize_sync (\<lambda>_.
        console_log ''Database synchronized successfully''))))
       (\<lambda>error.
          await (console_log ''Error initializing database:'') (\<lambda>_.
          throw error))"

text \<open>The column additions among a list of sent statements: the ones that succeeded.\<close>

definition column_additions :: "(statement \<times> bool) list \<Rightarrow> statement list" where
  "column_additions tr =
     [st. (st, ok) \<leftarrow> tr, ok, (case st of AlterTableAddColumn t c ty \<Rightarrow> True | _ \<Rightarrow> False)]"


section \<open>Assertions about runs of the migration\<close>

text \<open>
  A triple in the style of Hoare: from a world that satisfies \<open>P\<close>, the computation \<open>m\<close>
  resolves with a value and a world that satisfy \<open>Q\<close>, or rejects in a world that satisfies
  \<open>E\<close>.  \<open>keeps I m\<close> says that \<open>m\<close> maintains \<open>I\<close> on both exits.
\<close>

definition triple ::
  "(world \<Rightarrow> bool) \<Rightarrow> 'a io \<Rightarrow> ('a \<Rightarrow> world \<Rightarrow> bool) \<Rightarrow> (world \<Rightarrow> bool) \<Rightarrow> bool" where
  "triple P m Q E \<longleftrightarrow>
     (\<forall>w. P w \<longrightarrow> (case m w of (Inl e, w') \<Rightarrow> E w' | (Inr x, w') \<Rightarrow> Q x w'))"

definition keeps :: "(world \<Rightarrow> bool) \<Rightarrow> 'a io \<Rightarrow> bool" where
  "keeps I m \<longleftrightarrow> triple I m (\<lambda>_. I) I"

text \<open>A database has a column; a database has every column that the migration adds.\<close>

definition has_col :: "database \<Rightarrow> string \<Rightarrow> string \<Rightarrow> bool" where
  "has_col d t c \<longleftrightarrow> (case d t of None \<Rightarrow> False | Some tb \<Rightarrow> c \<in> set (columns tb))"

definition migrated :: "database \<Rightarrow> bool" where
  "migrated d \<longleftrightarrow>
     has_col d ''GuildConfigs'' ''streakStreakEnabled'' \<and>
     (\<forall>c \<in> set (map fst requiredColumns). has_col d ''Streaks'' c)"

definition is_addition :: "statement \<Rightarrow> bool" where
  "is_addition st = (case st of AlterTableAddColumn t c ty \<Rightarrow> True | _ \<Rightarrow> False)"

text \<open>The column additions that the source can send: all of them add a column of \<open>migrated\<close>.\<close>

definition covered :: "statement \<Rightarrow> bool" where
  "covered st \<longleftrightarrow>
     (case st of
        AlterTableAddColumn t c ty \<Rightarrow>
          (t = ''GuildConfigs'' \<and> c = ''streakStreakEnabled'') \<or>
          (t = ''Streaks'' \<and> c \<in> set (map fst requiredColumns))
      | _ \<Rightarrow> True)"

text \<open>No column was added since the trace had length \<open>n\<close>.\<close>

definition no_additions :: "nat \<Rightarrow> world \<Rightarrow> bool" where
  "no_additions n w \<longleftrightarrow> n \<le> length (trace w) \<and> column_additions (drop n (trace w)) = []"

text \<open>The invariant of a run on a migrated database.\<close>

definition settled :: "nat \<Rightarrow> world \<Rightarrow> bool" where
  "settled n w \<longleftrightarrow>
     migrated (committed w) \<and> (\<forall>T. transaction w = Some T \<longrightarrow> migrated T) \<and> no_additions n w"

text \<open>The last line that a run logs when it has gone through.\<close>

definition done_msg :: string where
  "done_msg = ''Migration completed successfully''"

definition notdone :: "nat \<Rightarrow> world \<Rightarrow> bool" where
  "notdone n w \<longleftrightarrow> n \<le> length (console w) \<and> done_msg \<notin> set (drop n (console w))"

text \<open>
  The invariant on a row, where it can be read off: a row whose \<open>count\<close> and \<open>bestStreak\<close>
  are both integers has \<open>bestStreak\<close> at least \<open>count\<close>.
\<close>

definition bestStreak_ge_count :: "row \<Rightarrow> bool" where
  "bestStreak_ge_count r \<longleftrightarrow>
     (case (map_of r ''count'', map_of r ''bestStreak'') of
        (Some (VInt c), Some (VInt b)) \<Rightarrow> c \<le> b
      | _ \<Rightarrow> True)"

definition rows_ok :: "database \<Rightarrow> bool" where
  "rows_ok d \<longleftrightarrow>
     (case d ''Streaks'' of None \<Rightarrow> True | Some tb \<Rightarrow> \<forall>r \<in> set (rows tb). bestStreak_ge_count r)"

text \<open>What a run that began with \<open>n\<close> lines on the console has achieved if it logged success.\<close>

definition achieved :: "nat \<Rightarrow> world \<Rightarrow> bool" where
  "achieved n w \<longleftrightarrow>
     n \<le> length (console w) \<and>
     (done_msg \<in> set (drop n (console w)) \<longrightarrow> migrated (committed w) \<and> rows_ok (committed w))"

text \<open>
  The state of a run inside its transaction: success not yet logged, the transaction open on
  a database that has every column of the committed one and the columns \<open>C\<close>, and, once the
  \<open>UPDATE\<close> has run (\<open>fixed\<close>), rows that satisfy the invariant.
\<close>

definition stage :: "nat \<Rightarrow> (string \<times> string) set \<Rightarrow> bool \<Rightarrow> world \<Rightarrow> bool" where
  "stage n C fixed w \<longleftrightarrow>
     notdone n w \<and>
     (\<exists>T. transaction w = Some T \<and>
          (\<forall>t c. has_col (committed w) t c \<longrightarrow> has_col T t c) \<and>
          (\<forall>(t, c) \<in> C. has_col T t c) \<and>
          (fixed \<longrightarrow> rows_ok T \<and> has_col T ''Streaks'' ''count'' \<and>
                     has_col T ''Streaks'' ''bestStreak''))"

definition covers :: "(string \<times> string) set \<Rightarrow> bool" where
  "covers C \<longleftrightarrow>
     (''GuildConfigs'', ''streakStreakEnabled'') \<in> C \<and>
     (\<forall>c \<in> set (map fst requiredColumns). (''Streaks'', c) \<in> C)"

text \<open>The statements of a run that skips the migration.\<close>

definition skip_statements :: "statement set" where
  "skip_statements =
     {StartTransaction, SelectTableExists ''GuildConfigs'', SelectTableExists ''Streaks'',
      Commit, Rollback}"


section \<open>Example inputs\<close>

text \<open>An operation that finds the server down at every call and counts its calls.\<close>

definition server_down :: "(nat, unit) operation" where
  "server_down n = (Inl (Error ''SequelizeConnectionError'' ''connection lost''), Suc n)"

text \<open>What the first match of a trigger word hands to \<open>Streak.create\<close>.\<close>

definition first_trigger :: Streak_values where
  "first_trigger =
     \<lparr>v_id = None, v_guildId = Some ''g1'', v_userId = Some ''u1'',
      v_triggerWord = Some (String ''Daily''), v_count = None, v_bestStreak = None,
      v_streakStreak = None, v_lastStreakDate = None, v_lastUpdated = None\<rparr>"

text \<open>A list of trigger words as an administrator may type it.\<close>

definition typed_words :: jsval where
  "typed_words = Array [String ''Daily'', Number 3, String ''  '', String ''daily '']"

text \<open>An instance as loaded from its row, with nothing changed yet.\<close>

definition loaded_streak :: Streak where
  "loaded_streak =
     \<lparr>id_col = Some 1, guildId = ''g1'', userId = ''u1'', triggerWord = ''daily'',
      count = 5, bestStreak = 5, streakStreak = 0, lastStreakDate = None,
      lastUpdated = 0, changed = {}\<rparr>"

text \<open>
  Two databases.  The first is up to date, with one streak whose best streak lags behind
  its count.  The second predates two columns: \<open>streakStreakEnabled\<close> of GuildConfigs and
  \<open>lastUpdated\<close> of Streaks.
\<close>

definition guildConfigs_table :: table where
  "guildConfigs_table =
     \<lparr>columns = [''guildId'', ''triggerWords'', ''streakLimit'', ''streakStreakEnabled''],
      rows = [[(''guildId'', VStr ''g1''), (''triggerWords'', VStr ''{daily}''),
               (''streakLimit'', VInt 0), (''streakStreakEnabled'', VBool True)]]\<rparr>"

definition streaks_table :: table where
  "streaks_table =
     \<lparr>columns = [''id'', ''guildId'', ''userId'', ''triggerWord'', ''count'', ''bestStreak'',
                 ''streakStreak'', ''lastStreakDate'', ''lastUpdated''],
      rows = [[(''id'', VInt 1), (''guildId'', VStr ''g1''), (''userId'', VStr ''u1''),
               (''triggerWord'', VStr ''daily''), (''count'', VInt 7), (''bestStreak'', VInt 4),
               (''streakStreak'', VInt 0), (''lastStreakDate'', VNull),
               (''lastUpdated'', VInt 0)]]\<rparr>"

definition current_database :: database where
  "current_database = [''GuildConfigs'' \<mapsto> guildConfigs_table, ''Streaks'' \<mapsto> streaks_table]"

definition old_database :: database where
  "old_database =
     [''GuildConfigs'' \<mapsto>
        \<lparr>columns = [''guildId'', ''triggerWords'', ''streakLimit''],
         rows = [[(''guildId'', VStr ''g1''), (''triggerWords'', VStr ''{daily}''),
                  (''streakLimit'', VInt 0)]]\<rparr>,
      ''Streaks'' \<mapsto>
        \<lparr>columns = [''id'', ''guildId'', ''userId'', ''triggerWord'', ''count'', ''bestStreak'',
                    ''streakStreak'', ''lastStreakDate''],
         rows = [[(''id'', VInt 1), (''guildId'', VStr ''g1''), (''userId'', VStr ''u1''),
                  (''triggerWord'', VStr ''daily''), (''count'', VInt 7), (''bestStreak'', VInt 4),
                  (''streakStreak'', VInt 0), (''lastStreakDate'', VNull)]]\<rparr>]"

text \<open>Worlds without faults on the old database and on an empty one.\<close>

definition old_world :: world where
  "old_world =
     \<lparr>committed = old_database, transaction = None, faults = [], trace = [], console = []\<rparr>"

definition empty_world :: world where
  "empty_world =
     \<lparr>committed = Map.empty, transaction = None, faults = [], trace = [], console = []\<rparr>"

text \<open>
  A start on the current database at which the tenth round trip, the \<open>UPDATE\<close>, fails, the
  rollback goes through, and the first statement of the restore fails as well.
\<close>

definition update_and_restore_fail :: world where
  "update_and_restore_fail =
     \<lparr>committed = current_database, transaction = None,
      faults = replicate 9 None @
               [Some (Error ''SequelizeDatabaseError'' ''deadlock detected''), None,
                Some (Error ''SequelizeDatabaseError'' ''permission denied'')],
      trace = [], console = []\<rparr>"

section \<open>The retry wrapper: bounded attempts, linear backoff\<close>

text \<open>
  The loop is entered at attempt \<open>a\<close> after \<open>a - 1\<close> invocations that all threw transient
  errors, with the delays \<open>retryDelay * 1, ..., retryDelay * (a - 1)\<close> behind it.
\<close>

lemma upto_snoc: "1 \<le> a \<Longrightarrow> [1..a] = [1..a - 1] @ [a]"
  by (simp add: upto_rec2)

lemma withRetry_loop_post:
  assumes "1 \<le> attempt" and "attempt \<le> maxR"
    and "int (invocations r) = attempt - 1"
    and "sleeps r = map (\<lambda>k. retryDelay * k) [1..attempt - 1]"
    and "length (caught r) = invocations r"
    and "\<forall>e \<in> set (caught r). retryOnError e"
    and "withRetry_loop operation maxR attempt lastError r = (res, r')"
  shows "1 \<le> invocations r' \<and> int (invocations r') \<le> maxR \<and>
         sleeps r' = map (\<lambda>k. retryDelay * k) [1..int (invocations r') - 1] \<and>
         (\<forall>e \<in> set (butlast (caught r')). retryOnError e) \<and>
         (case res of
            Inr v \<Rightarrow> length (caught r') = invocations r' - 1 \<and>
                     (\<forall>e \<in> set (caught r'). retryOnError e)
          | Inl x \<Rightarrow> length (caught r') = invocations r' \<and> x = Some (last (caught r')) \<and>
                     (retryOnError (last (caught r')) \<longrightarrow> int (invocations r') = maxR))"
  using assms
proof (induction operation maxR attempt lastError r rule: withRetry_loop.induct)
  case (1 operation maxR attempt lastError r)
  obtain out s' where op: "operation (opstate r) = (out, s')"
    by (cases "operation (opstate r)")
  show ?case
  proof (cases out)
    case (Inr v)
    with 1(2-8) op show ?thesis
      by (auto simp: withRetry_loop.simps [of operation maxR attempt] dest: in_set_butlastD)
  next
    case (Inl e)
    let ?r1 = "r\<lparr>opstate := s', invocations := Suc (invocations r), caught := caught r @ [e]\<rparr>"
    show ?thesis
    proof (cases "retryOnError e \<and> attempt < maxR")
      case True
      let ?r2 = "?r1\<lparr>sleeps := sleeps ?r1 @ [retryDelay * attempt]\<rparr>"
      have run: "withRetry_loop operation maxR (attempt + 1) (Some e) ?r2 = (res, r')"
        using 1(8) op Inl True 1(3)
        by (simp add: withRetry_loop.simps [of operation maxR attempt] Let_def)
      have a: "1 \<le> attempt + 1" and b: "attempt + 1 \<le> maxR"
        using 1(2) True by auto
      have c: "int (invocations ?r2) = attempt + 1 - 1"
        using 1(4) by simp
      have d: "sleeps ?r2 = map (\<lambda>k. retryDelay * k) [1..attempt + 1 - 1]"
        using 1(2,5) by (simp add: upto_snoc)
      have f: "length (caught ?r2) = invocations ?r2"
        using 1(6) by simp
      have g: "\<forall>e \<in> set (caught ?r2). retryOnError e"
        using 1(7) True by simp
      show ?thesis
        by (rule 1(1) [OF 1(3) op [symmetric] Inl refl True a b c d f g run])
    next
      case False
      with 1(2-8) op Inl show ?thesis
        by (auto simp: withRetry_loop.simps [of operation maxR attempt] Let_def)
    qed
  qed
qed

text \<open>
  C7.  A call of \<open>withRetry\<close> with the default \<open>maxRetries\<close> invokes the operation at least
  once and at most three times.  Between consecutive invocations it sleeps once, the k-th
  time for 1000 * k milliseconds.  Every error before the last one caught was transient.
  When the call throws, it throws the last error caught, at the invocation that threw it,
  and if that error is transient all three attempts were used; a non-transient error is
  therefore thrown by the attempt that met it, with no attempt after it.
\<close>

theorem withRetry_bounded_linear_backoff:
  assumes "withRetry operation s = (res, r)"
  shows "1 \<le> invocations r \<and> invocations r \<le> 3 \<and>
         sleeps r = map (\<lambda>k. 1000 * k) [1..int (invocations r) - 1] \<and>
         (\<forall>e \<in> set (butlast (caught r)). retryOnError e) \<and>
         (case res of
            Inr v \<Rightarrow> length (caught r) = invocations r - 1 \<and>
                     (\<forall>e \<in> set (caught r). retryOnError e)
          | Inl x \<Rightarrow> length (caught r) = invocations r \<and> x = Some (last (caught r)) \<and>
                     (retryOnError (last (caught r)) \<longrightarrow> invocations r = 3))"
proof -
  have run: "withRetry_loop operation 3 1 None (start_run s) = (res, r)"
    using assms by (simp add: withRetry_def withRetry_n_def maxRetries_def)
  have post: "1 \<le> invocations r \<and> int (invocations r) \<le> 3 \<and>
         sleeps r = map (\<lambda>k. retryDelay * k) [1..int (invocations r) - 1] \<and>
         (\<forall>e \<in> set (butlast (caught r)). retryOnError e) \<and>
         (case res of
            Inr v \<Rightarrow> length (caught r) = invocations r - 1 \<and>
                     (\<forall>e \<in> set (caught r). retryOnError e)
          | Inl x \<Rightarrow> length (caught r) = invocations r \<and> x = Some (last (caught r)) \<and>
                     (retryOnError (last (caught r)) \<longrightarrow> int (invocations r) = 3))"
    by (rule withRetry_loop_post [OF _ _ _ _ _ _ run]) (simp_all add: start_run_def)
  then show ?thesis
    by (cases res) (simp_all add: retryDelay_def)
qed

lemma withRetry_server_down:
  "withRetry server_down 0 =
     (Inl (Some (Error ''SequelizeConnectionError'' ''connection lost'')),
      \<lparr>opstate = 3, invocations = 3, sleeps = [1000, 2000],
       caught = [Error ''SequelizeConnectionError'' ''connection lost'',
                 Error ''SequelizeConnectionError'' ''connection lost'',
                 Error ''SequelizeConnectionError'' ''connection lost'']\<rparr>)"
  by (simp add: withRetry_def withRetry_n_def maxRetries_def retryDelay_def start_run_def
      withRetry_loop.simps server_down_def retryOnError_def)

theorem withRetry_bounded_linear_backoff_witness:
  "fst (withRetry server_down 0) = Inl (Some (Error ''SequelizeConnectionError'' ''connection lost'')) \<and>
   invocations (snd (withRetry server_down 0)) = 3 \<and>
   sleeps (snd (withRetry server_down 0)) = [1000, 2000]"
  using withRetry_bounded_linear_backoff [OF withRetry_server_down] withRetry_server_down
  by simp

section \<open>The raid bonus tiers\<close>

text \<open>
  C5, as stated, lists the tiers as half-open ranges and gives 0 to every other count, so
  the count 24 lies in no tier; yet the bonus at 24 is 0.03 and not 0.
\<close>

theorem progressiveBonus_24_counterexample:
  "(24::int) \<notin> {10..<24} \<union> {25..<49} \<union> {50..<74} \<union> {75..<99} \<union> {100..} \<and>
   progressiveBonus 24 \<noteq> 0"
  by (simp add: progressiveBonus_def)

text \<open>
  C5, amended.  The progressive bonus is a step function of the target's count with the
  upper ends of the tiers included: 10 to 24 gives 0.03, 25 to 49 gives 0.06, 50 to 74 gives
  0.09, 75 to 99 gives 0.12, 100 and above gives 0.15, and a count below 10 gives 0; in
  particular 24 gives 0.03 and 25 gives 0.06.
\<close>

theorem progressiveBonus_tiers:
  "(\<forall>n \<in> {10..24}. progressiveBonus n = 3 / 100) \<and>
   (\<forall>n \<in> {25..49}. progressiveBonus n = 6 / 100) \<and>
   (\<forall>n \<in> {50..74}. progressiveBonus n = 9 / 100) \<and>
   (\<forall>n \<in> {75..99}. progressiveBonus n = 12 / 100) \<and>
   (\<forall>n \<in> {100..}. progressiveBonus n = 15 / 100) \<and>
   (\<forall>n \<in> {..<10}. progressiveBonus n = 0) \<and>
   progressiveBonus 24 = 3 / 100 \<and> progressiveBonus 25 = 6 / 100"
  by (simp add: progressiveBonus_def)

theorem progressiveBonus_tiers_witness:
  "(49::int) \<in> {25..49} \<and> progressiveBonus 49 = 6 / 100 \<and> progressiveBonus 24 = 3 / 100"
  using progressiveBonus_tiers by simp

section \<open>Normalisation of trigger words\<close>

lemma lower_char_space: "is_space c \<Longrightarrow> lower_char c = c"
  by (auto simp: is_space_def lower_char_def Let_def)

lemma trim_all_space: "\<forall>c \<in> set s. is_space c \<Longrightarrow> trim s = []"
proof -
  assume "\<forall>c \<in> set s. is_space c"
  then have e: "dropWhile is_space s = []" by (induction s) auto
  show ?thesis unfolding trim_def e by simp
qed

lemma toLowerCase_all_space: "\<forall>c \<in> set s. is_space c \<Longrightarrow> toLowerCase s = s"
  by (simp add: toLowerCase_def lower_char_space map_idI)

lemma lower_char_idem: "lower_char (lower_char c) = lower_char c"
proof -
  define n where "n = (of_char c :: nat)"
  show ?thesis
  proof (cases "(65 \<le> n \<and> n \<le> 90) \<or> (192 \<le> n \<and> n \<le> 214) \<or> (216 \<le> n \<and> n \<le> 222)")
    case True
    then have lt: "n + 32 < 256" by auto
    have l1: "lower_char c = char_of (n + 32)"
      using True by (simp add: lower_char_def n_def Let_def)
    have "(of_char (char_of (n + 32) :: char) :: nat) = n + 32"
      using lt by simp
    then have "lower_char (char_of (n + 32)) = char_of (n + 32)"
      using True unfolding lower_char_def Let_def by auto
    with l1 show ?thesis by simp
  next
    case False
    then have "lower_char c = c"
      unfolding lower_char_def Let_def n_def by presburger
    then show ?thesis by simp
  qed
qed

lemma toLowerCase_fixed: "\<forall>c \<in> set s. lower_char c = c \<Longrightarrow> toLowerCase s = s"
  by (simp add: toLowerCase_def map_idI)

lemma set_trim: "set (trim s) \<subseteq> set s"
proof
  fix c assume "c \<in> set (trim s)"
  then have "c \<in> set (dropWhile is_space (rev (dropWhile is_space s)))"
    by (simp add: trim_def)
  then have "c \<in> set (rev (dropWhile is_space s))" by (rule set_dropWhileD)
  then have "c \<in> set (dropWhile is_space s)" by simp
  then show "c \<in> set s" by (rule set_dropWhileD)
qed

lemma toLowerCase_trim_toLowerCase: "toLowerCase (trim (toLowerCase s)) = trim (toLowerCase s)"
proof (rule toLowerCase_fixed, rule ballI)
  fix c assume "c \<in> set (trim (toLowerCase s))"
  then have "c \<in> set (toLowerCase s)" using set_trim by blast
  then obtain c' where "c = lower_char c'" by (auto simp: toLowerCase_def)
  then show "lower_char c = c" by (simp add: lower_char_idem)
qed

lemma last_dropWhile_eq: "dropWhile P xs \<noteq> [] \<Longrightarrow> last (dropWhile P xs) = last xs"
proof -
  assume ne: "dropWhile P xs \<noteq> []"
  have "last xs = last (takeWhile P xs @ dropWhile P xs)" by simp
  also have "\<dots> = last (dropWhile P xs)" using ne by (rule last_appendR)
  finally show ?thesis by simp
qed

lemma trim_trim: "trim (trim s) = trim s"
proof -
  define t where "t = dropWhile is_space s"
  define u where "u = dropWhile is_space (rev t)"
  have trim: "trim s = rev u" by (simp add: trim_def t_def u_def)
  have keep: "dropWhile is_space (rev u) = rev u"
  proof (cases "u = []")
    case True
    then show ?thesis by simp
  next
    case False
    then have "rev t \<noteq> []" by (auto simp: u_def)
    then have tne: "t \<noteq> []" by simp
    have "last u = last (rev t)" using False unfolding u_def by (rule last_dropWhile_eq)
    also have "\<dots> = hd t" using tne by (simp add: last_rev)
    finally have "hd (rev u) = hd t" using False by (simp add: hd_rev)
    moreover have "\<not> is_space (hd t)" using tne unfolding t_def by (rule hd_dropWhile)
    ultimately show ?thesis using False by (simp add: dropWhile_eq_self_iff)
  qed
  have "trim (rev u) = rev (dropWhile is_space (rev (rev u)))"
    by (simp only: trim_def keep)
  also have "\<dots> = rev u" by (simp add: u_def)
  finally show ?thesis by (simp add: trim)
qed

lemma typed_words_stored: "GuildConfig_set_triggerWords typed_words = [''daily'', ''daily'']"
  by code_simp

text \<open>
  C6, as stated, has duplicates removed from the stored list.  The setter removes none:
  two spellings of one word are stored as the same word twice.
\<close>

theorem triggerWords_duplicates_counterexample:
  "\<not> distinct (GuildConfig_set_triggerWords
                  (Array [String ''Daily'', Number 3, String ''  '', String ''daily '']))"
  using typed_words_stored by (simp add: typed_words_def)

text \<open>
  C6, amended.  For every value written to \<open>triggerWords\<close>, every word of the stored list is
  a non-empty string that lower-casing and trimming leave as it is; the list keeps the
  order and the repetitions of the words given.
\<close>

theorem triggerWords_normalised:
  "\<forall>word \<in> set (GuildConfig_set_triggerWords v).
     word \<noteq> [] \<and> toLowerCase word = word \<and> trim word = word"
  by (auto simp: GuildConfig_set_triggerWords_def toLowerCase_trim_toLowerCase trim_trim
           split: jsval.splits)

theorem triggerWords_normalised_witness:
  "''daily'' \<in> set (GuildConfig_set_triggerWords typed_words) \<and>
   ''daily'' \<noteq> [] \<and> toLowerCase ''daily'' = ''daily'' \<and> trim ''daily'' = ''daily''"
proof -
  have m: "''daily'' \<in> set (GuildConfig_set_triggerWords typed_words)"
    by (simp add: typed_words_stored)
  from bspec [OF triggerWords_normalised m] m show ?thesis by simp
qed

section \<open>The setter of the trigger word of a streak\<close>

text \<open>
  C9.  The setter throws for null, for undefined and for every value that is not a string.
  A non-empty string of white space only passes the check, which runs before the trimming,
  and the empty string is stored.
\<close>

theorem Streak_set_triggerWord_check_before_trim:
  "(v = Null \<or> v = Undefined \<or> typeof v \<noteq> ''string'' \<longrightarrow>
      Streak_set_triggerWord v = Inl (Error ''Error'' ''Trigger word must be a non-empty string'')) \<and>
   (s \<noteq> [] \<and> (\<forall>c \<in> set s. is_space c) \<longrightarrow> Streak_set_triggerWord (String s) = Inr [])"
  by (auto simp: Streak_set_triggerWord_def toLowerCase_all_space trim_all_space)

theorem Streak_set_triggerWord_check_before_trim_witness:
  "Streak_set_triggerWord (Number 7) =
     Inl (Error ''Error'' ''Trigger word must be a non-empty string'') \<and>
   Streak_set_triggerWord (String '' '') = Inr []"
  using Streak_set_triggerWord_check_before_trim [of "Number 7" "'' ''"]
  by (simp add: is_space_def)

section \<open>A freshly created streak\<close>

lemma create_first_trigger:
  "Streak_create 0 first_trigger empty_Streak_table =
     (Inr \<lparr>id_col = Some 1, guildId = ''g1'', userId = ''u1'', triggerWord = ''daily'',
           count = 1, bestStreak = 1, streakStreak = 0, lastStreakDate = None,
           lastUpdated = 0, changed = {}\<rparr>,
      \<lparr>streak_rows = [\<lparr>id_col = Some 1, guildId = ''g1'', userId = ''u1'',
           triggerWord = ''daily'', count = 1, bestStreak = 1, streakStreak = 0,
           lastStreakDate = None, lastUpdated = 0, changed = {}\<rparr>], next_id = 2\<rparr>)"
  by code_simp

text \<open>
  C8.  A streak created without values for \<open>count\<close>, \<open>bestStreak\<close>, \<open>streakStreak\<close> and
  \<open>lastStreakDate\<close> is stored with count 1, best streak 1, streak-streak 0 and no last
  streak date.
\<close>

theorem fresh_Streak_defaults:
  assumes "v_count vs = None" and "v_bestStreak vs = None"
    and "v_streakStreak vs = None" and "v_lastStreakDate vs = None"
    and "Streak_create now vs tbl = (Inr streak, tbl')"
  shows "count streak = 1 \<and> bestStreak streak = 1 \<and> streakStreak streak = 0 \<and>
         lastStreakDate streak = None \<and> streak \<in> set (streak_rows tbl')"
  using assms
  by (auto simp: Streak_create_def Streak_build_def beforeSave_def Let_def
           split: sum.splits option.splits if_splits prod.splits)

theorem fresh_Streak_defaults_witness:
  "v_count first_trigger = None \<and> v_bestStreak first_trigger = None \<and>
   fst (Streak_create 0 first_trigger empty_Streak_table) =
     Inr \<lparr>id_col = Some 1, guildId = ''g1'', userId = ''u1'', triggerWord = ''daily'',
          count = 1, bestStreak = 1, streakStreak = 0, lastStreakDate = None,
          lastUpdated = 0, changed = {}\<rparr>"
  using fresh_Streak_defaults [OF _ _ _ _ create_first_trigger] create_first_trigger
  by (simp add: first_trigger_def)

section \<open>Rules for triples\<close>

lemma tripleI:
  "(\<And>w res w'. P w \<Longrightarrow> m w = (res, w') \<Longrightarrow> (case res of Inl e \<Rightarrow> E w' | Inr x \<Rightarrow> Q x w')) \<Longrightarrow> triple P m Q E"
  by (auto simp: triple_def split: prod.splits sum.splits)

lemma tripleD:
  "triple P m Q E \<Longrightarrow> P w \<Longrightarrow> m w = (res, w') \<Longrightarrow> (case res of Inl e \<Rightarrow> E w' | Inr x \<Rightarrow> Q x w')"
  by (auto simp: triple_def split: prod.splits sum.splits)

lemma triple_return: "(\<And>w. P w \<Longrightarrow> Q x w) \<Longrightarrow> triple P (return x) Q E"
  by (simp add: triple_def return_def)

lemma triple_throw: "(\<And>w. P w \<Longrightarrow> E w) \<Longrightarrow> triple P (throw e) Q E"
  by (simp add: triple_def throw_def)

lemma triple_await:
  "triple P m R E \<Longrightarrow> (\<And>x. triple (R x) (k x) Q E) \<Longrightarrow> triple P (await m k) Q E"
  unfolding triple_def await_def
  by (fastforce split: prod.splits sum.splits)

lemma triple_try_catch:
  "triple P m Q R \<Longrightarrow> (\<And>e. triple R (h e) Q E) \<Longrightarrow> triple P (try_catch m h) Q E"
  unfolding triple_def try_catch_def
  by (fastforce split: prod.splits sum.splits)

lemma triple_conseq:
  "triple P' m Q' E' \<Longrightarrow> (\<And>w. P w \<Longrightarrow> P' w) \<Longrightarrow> (\<And>x w. Q' x w \<Longrightarrow> Q x w) \<Longrightarrow>
   (\<And>w. E' w \<Longrightarrow> E w) \<Longrightarrow> triple P m Q E"
  unfolding triple_def
  by (fastforce split: prod.splits sum.splits)

lemma triple_if:
  "(b \<Longrightarrow> triple P m Q E) \<Longrightarrow> (\<not> b \<Longrightarrow> triple P n Q E) \<Longrightarrow> triple P (if b then m else n) Q E"
  by simp

lemma triple_log:
  "(\<And>w. P w \<Longrightarrow> Q () (w\<lparr>console := console w @ [msg]\<rparr>)) \<Longrightarrow> triple P (console_log msg) Q E"
  by (simp add: triple_def console_log_def)

lemma keeps_return: "keeps I (return x)"
  by (simp add: keeps_def triple_return)

lemma keeps_throw: "keeps I (throw e)"
  by (simp add: keeps_def triple_throw)

lemma keeps_await: "keeps I m \<Longrightarrow> (\<And>x. keeps I (k x)) \<Longrightarrow> keeps I (await m k)"
  unfolding keeps_def by (rule triple_await)

lemma keeps_try_catch: "keeps I m \<Longrightarrow> (\<And>e. keeps I (h e)) \<Longrightarrow> keeps I (try_catch m h)"
  unfolding keeps_def by (rule triple_try_catch)

lemma keeps_if: "(b \<Longrightarrow> keeps I m) \<Longrightarrow> (\<not> b \<Longrightarrow> keeps I n) \<Longrightarrow> keeps I (if b then m else n)"
  by simp

lemma keeps_case_list:
  "keeps I m \<Longrightarrow> (\<And>x xs. keeps I (f x xs)) \<Longrightarrow> keeps I (case l of [] \<Rightarrow> m | x # xs \<Rightarrow> f x xs)"
  by (cases l) simp_all

lemma keepsI:
  "(\<And>w res w'. I w \<Longrightarrow> m w = (res, w') \<Longrightarrow> I w') \<Longrightarrow> keeps I m"
  unfolding keeps_def by (rule tripleI) (auto split: sum.splits)

lemmas keeps_rules = keeps_return keeps_throw keeps_await keeps_try_catch keeps_if keeps_case_list

section \<open>Effects of the primitives\<close>

text \<open>
  What a query, a check or a call on the transaction object leaves behind, in terms of the
  fields of the world.
\<close>

lemma query_out_cases:
  assumes "query st False w = (res, w')"
  shows "console w' = console w \<and> transaction w' = transaction w \<and>
         ((\<exists>e. res = Inl e \<and> committed w' = committed w \<and> trace w' = trace w @ [(st, False)]) \<or>
          (\<exists>r. res = Inr r \<and> run_statement st (committed w) = Inr (r, committed w') \<and>
               trace w' = trace w @ [(st, True)]))"
  using assms
  by (auto simp: query_def sent_def split: option.splits sum.splits prod.splits)

lemma query_in_cases:
  assumes "query st True w = (res, w')"
  shows "console w' = console w \<and> committed w' = committed w \<and>
         ((\<exists>e. res = Inl e \<and> transaction w' = transaction w \<and>
               (trace w' = trace w \<or> trace w' = trace w @ [(st, False)])) \<or>
          (\<exists>r T T'. res = Inr r \<and> transaction w = Some T \<and> run_statement st T = Inr (r, T') \<and>
               transaction w' = Some T' \<and> trace w' = trace w @ [(st, True)]))"
  using assms
  by (auto simp: query_def sent_def split: option.splits sum.splits prod.splits)

lemma sequelize_transaction_cases:
  assumes "sequelize_transaction w = (res, w')"
  shows "console w' = console w \<and> committed w' = committed w \<and>
         ((\<exists>e. res = Inl e \<and> transaction w' = transaction w \<and>
               trace w' = trace w @ [(StartTransaction, False)]) \<or>
          (res = Inr () \<and> transaction w' = Some (committed w) \<and>
               trace w' = trace w @ [(StartTransaction, True)]))"
  using assms
  by (auto simp: sequelize_transaction_def sent_def split: option.splits)

lemma transaction_commit_cases:
  assumes "transaction_commit w = (res, w')"
  shows "console w' = console w \<and>
         ((\<exists>e. res = Inl e \<and> committed w' = committed w \<and> transaction w' = None \<and>
               (transaction w = None \<and> trace w' = trace w \<or>
                transaction w \<noteq> None \<and> trace w' = trace w @ [(Commit, False)])) \<or>
          (\<exists>T. res = Inr () \<and> transaction w = Some T \<and> committed w' = T \<and>
               transaction w' = None \<and> trace w' = trace w @ [(Commit, True)]))"
  using assms
  by (auto simp: transaction_commit_def sent_def split: option.splits)

lemma transaction_rollback_cases:
  assumes "transaction_rollback w = (res, w')"
  shows "console w' = console w \<and> committed w' = committed w \<and> transaction w' = None \<and>
         ((\<exists>e. res = Inl e \<and> (trace w' = trace w \<or> trace w' = trace w @ [(Rollback, False)])) \<or>
          (res = Inr () \<and> trace w' = trace w @ [(Rollback, True)]))"
  using assms
  by (auto simp: transaction_rollback_def sent_def split: option.splits)

lemma checkColumnExists_cases:
  assumes "checkColumnExists t c w = (res, w')"
  shows "(res = Inr False \<or> res = Inr True \<and> has_col (committed w) t c) \<and>
         committed w' = committed w \<and> transaction w' = transaction w \<and>
         (console w' = console w \<or>
          console w' = console w @ [''Error checking if column '' @ c @ '' exists in table '' @ t @ '':''])"
proof -
  obtain r0 w0 where q: "query (SelectColumnExists t c) False w = (r0, w0)"
    by (cases "query (SelectColumnExists t c) False w")
  from query_out_cases [OF q] q assms show ?thesis
    by (auto simp: checkColumnExists_def try_catch_def await_def return_def console_log_def
          has_col_def split: result.splits)
qed

lemma checkTableExists_cases:
  assumes "checkTableExists t w = (res, w')"
  shows "(res = Inr False \<or> res = Inr True \<and> committed w t \<noteq> None) \<and>
         committed w' = committed w \<and> transaction w' = transaction w \<and>
         (trace w' = trace w @ [(SelectTableExists t, False)] \<or>
          trace w' = trace w @ [(SelectTableExists t, True)]) \<and>
         (console w' = console w \<or>
          console w' = console w @ [''Error checking if table '' @ t @ '' exists:''])"
proof -
  obtain r0 w0 where q: "query (SelectTableExists t) False w = (r0, w0)"
    by (cases "query (SelectTableExists t) False w")
  from query_out_cases [OF q] q assms show ?thesis
    by (auto simp: checkTableExists_def try_catch_def await_def return_def console_log_def
          split: result.splits)
qed

section \<open>A run on a migrated database adds no column\<close>

text \<open>
  On a database that has all the columns, a check either finds the column or, when the
  check itself fails, is followed by an \<open>ALTER TABLE\<close> that the database rejects.  So
  \<open>settled\<close> is kept by every statement that the migration can send.
\<close>

lemma column_additions_snoc:
  "column_additions (tr @ [(st, ok)]) = column_additions tr @ (if ok \<and> is_addition st then [st] else [])"
  by (auto simp: column_additions_def is_addition_def split: statement.splits)

lemma no_additions_snoc:
  "no_additions n w \<Longrightarrow> trace w' = trace w @ [(st, ok)] \<Longrightarrow> \<not> (ok \<and> is_addition st) \<Longrightarrow>
   no_additions n w'"
  by (auto simp: no_additions_def column_additions_snoc)

lemma no_additions_same: "no_additions n w \<Longrightarrow> trace w' = trace w \<Longrightarrow> no_additions n w'"
  by (simp add: no_additions_def)

lemma run_statement_has_col:
  "run_statement st d = Inr (r, d') \<Longrightarrow> has_col d t c \<Longrightarrow> has_col d' t c"
  by (cases st) (auto simp: has_col_def Let_def split: option.splits if_splits)

lemma run_statement_migrated:
  "run_statement st d = Inr (r, d') \<Longrightarrow> migrated d \<Longrightarrow> migrated d'"
  unfolding migrated_def by (blast intro: run_statement_has_col)

lemma run_addition_fresh:
  "run_statement (AlterTableAddColumn t c ty) d = Inr (r, d') \<Longrightarrow> \<not> has_col d t c"
  by (auto simp: has_col_def split: option.splits if_splits)

lemma settled_query_out:
  "\<not> is_addition st \<Longrightarrow> triple (settled n) (query st False) (\<lambda>_. settled n) (settled n)"
proof (rule tripleI)
  fix w res w'
  assume na: "\<not> is_addition st" and K: "settled n w" and run: "query st False w = (res, w')"
  from query_out_cases [OF run] K na
  show "case res of Inl e \<Rightarrow> settled n w' | Inr x \<Rightarrow> settled n w'"
    by (auto simp: settled_def intro: run_statement_migrated no_additions_snoc split: sum.splits)
qed

lemma covered_fails:
  assumes "covered st" and "is_addition st" and "migrated d"
    and "run_statement st d = Inr (r, d')"
  shows False
proof (cases st)
  case (AlterTableAddColumn t c ty)
  from assms(1,3) have "has_col d t c"
    unfolding AlterTableAddColumn covered_def migrated_def by auto
  moreover have "\<not> has_col d t c"
    using assms(4) unfolding AlterTableAddColumn by (rule run_addition_fresh)
  ultimately show False by simp
qed (use assms(2) in \<open>simp_all add: is_addition_def\<close>)

lemma settled_query_in:
  "covered st \<Longrightarrow> triple (settled n) (query st True) (\<lambda>_. settled n) (settled n)"
proof (rule tripleI)
  fix w res w'
  assume cov: "covered st" and K: "settled n w" and run: "query st True w = (res, w')"
  from query_in_cases [OF run] K cov
  show "case res of Inl e \<Rightarrow> settled n w' | Inr x \<Rightarrow> settled n w'"
    by (auto simp: settled_def intro: run_statement_migrated no_additions_snoc no_additions_same
          dest: covered_fails split: sum.splits)
qed

lemma settled_console: "settled n (w\<lparr>console := c\<rparr>) = settled n w"
  by (simp add: settled_def no_additions_def)

lemma keeps_settled_log: "keeps (settled n) (console_log msg)"
  by (rule keepsI) (auto simp: console_log_def settled_console)

lemma keeps_settled_query_out: "\<not> is_addition st \<Longrightarrow> keeps (settled n) (query st False)"
  unfolding keeps_def by (rule settled_query_out)

lemma keeps_settled_query_in: "covered st \<Longrightarrow> keeps (settled n) (query st True)"
  unfolding keeps_def by (rule settled_query_in)

lemma keeps_settled_commit: "keeps (settled n) transaction_commit"
proof (rule keepsI)
  fix w res w'
  assume "settled n w" and "transaction_commit w = (res, w')"
  with transaction_commit_cases [of w res w'] show "settled n w'"
    by (auto simp: settled_def is_addition_def intro: no_additions_snoc no_additions_same)
qed

lemma keeps_settled_rollback: "keeps (settled n) transaction_rollback"
proof (rule keepsI)
  fix w res w'
  assume "settled n w" and "transaction_rollback w = (res, w')"
  with transaction_rollback_cases [of w res w'] show "settled n w'"
    by (auto simp: settled_def is_addition_def intro: no_additions_snoc no_additions_same)
qed

lemmas keeps_settled =
  keeps_settled_log keeps_settled_query_out keeps_settled_query_in keeps_settled_commit
  keeps_settled_rollback

lemma keeps_settled_checkTableExists: "keeps (settled n) (checkTableExists t)"
  unfolding checkTableExists_def
  by (intro keeps_rules keeps_settled) (simp add: is_addition_def)

lemma keeps_settled_checkColumnExists: "keeps (settled n) (checkColumnExists t c)"
  unfolding checkColumnExists_def
  by (intro keeps_rules keeps_settled) (simp add: is_addition_def)

lemma keeps_settled_backupTable: "keeps (settled n) (backupTable t)"
  unfolding backupTable_def
  by (intro keeps_rules keeps_settled) (simp add: covered_def)

lemma keeps_settled_restoreFromBackup: "keeps (settled n) (restoreFromBackup b t)"
  unfolding restoreFromBackup_def Let_def
  by (intro keeps_rules keeps_settled) (simp_all add: is_addition_def)

lemma keeps_settled_columnsToAdd_loop:
  "set (map fst cols) \<subseteq> set (map fst requiredColumns) \<Longrightarrow> keeps (settled n) (columnsToAdd_loop cols)"
proof (induction cols)
  case Nil
  show ?case by (simp add: keeps_return)
next
  case (Cons col cols)
  obtain c ty where col: "col = (c, ty)" by (cases col)
  have cov: "covered (AlterTableAddColumn ''Streaks'' c ty)"
    using Cons.prems by (auto simp: covered_def col)
  have rest: "keeps (settled n) (columnsToAdd_loop cols)"
    using Cons by simp
  show ?case
    unfolding col columnsToAdd_loop.simps
    by (intro keeps_rules keeps_settled keeps_settled_checkColumnExists cov rest)
qed

lemma keeps_settled_requiredColumns_loop:
  "set (map fst cols) \<subseteq> set (map fst requiredColumns) \<Longrightarrow> keeps (settled n) (requiredColumns_loop cols)"
proof (induction cols)
  case Nil
  show ?case by (simp add: keeps_return)
next
  case (Cons col cols)
  obtain c ty where col: "col = (c, ty)" by (cases col)
  have cov: "covered (AlterTableAddColumn ''Streaks'' c ty)"
    using Cons.prems by (auto simp: covered_def col)
  have rest: "keeps (settled n) (requiredColumns_loop cols)"
    using Cons by simp
  show ?case
    unfolding col requiredColumns_loop.simps
    by (intro keeps_rules keeps_settled keeps_settled_checkColumnExists cov rest)
qed

lemma keeps_settled_migration_steps: "keeps (settled n) migration_steps"
  unfolding migration_steps_def
  by (intro keeps_rules keeps_settled keeps_settled_checkColumnExists
        keeps_settled_columnsToAdd_loop keeps_settled_requiredColumns_loop)
     (simp_all add: covered_def columnsToAdd_def requiredColumns_def)

lemma keeps_settled_migration_failed: "keeps (settled n) (migration_failed g s e)"
  unfolding migration_failed_def
  by (intro keeps_rules keeps_settled keeps_settled_restoreFromBackup)

lemma keeps_settled_migrateDatabase_try: "keeps (settled n) migrateDatabase_try"
  unfolding migrateDatabase_try_def
  by (intro keeps_rules keeps_settled keeps_settled_checkTableExists
        keeps_settled_backupTable keeps_settled_migration_steps keeps_settled_migration_failed)

lemma second_run_no_additions:
  assumes mig: "migrated (committed w)" and run: "migrateDatabase w = (res, w')"
  shows "column_additions (drop (length (trace w)) (trace w')) = []"
proof -
  let ?n = "length (trace w)"
  obtain r0 w0 where start: "sequelize_transaction w = (r0, w0)"
    by (cases "sequelize_transaction w")
  note eff = sequelize_transaction_cases [OF start]
  show ?thesis
  proof (cases r0)
    case (Inl e)
    with run start have "w' = w0" by (simp add: migrateDatabase_def await_def)
    with eff Inl show ?thesis by (simp add: column_additions_def)
  next
    case (Inr u)
    have "settled ?n w0"
      using eff Inr mig by (auto simp: settled_def no_additions_def column_additions_def)
    moreover have "migrateDatabase_try w0 = (res, w')"
      using run start Inr by (simp add: migrateDatabase_def await_def)
    ultimately have "settled ?n w'"
      using keeps_settled_migrateDatabase_try [of ?n]
      unfolding keeps_def by (auto dest: tripleD split: sum.splits)
    then show ?thesis by (simp add: settled_def no_additions_def)
  qed
qed

section \<open>A run that logs success has migrated the database\<close>

text \<open>
  Until the last line is logged, \<open>notdone\<close> holds; inside the transaction, \<open>stage\<close> collects
  the columns that are known to exist there.
\<close>

lemma notdone_achieved: "notdone n w \<Longrightarrow> achieved n w"
  by (simp add: notdone_def achieved_def)

lemma stage_notdone: "stage n C f w \<Longrightarrow> notdone n w"
  by (simp add: stage_def)

lemma notdone_log: "msg \<noteq> done_msg \<Longrightarrow> notdone n w \<Longrightarrow> notdone n (w\<lparr>console := console w @ [msg]\<rparr>)"
  by (auto simp: notdone_def)

lemma notdone_same: "notdone n w \<Longrightarrow> console w' = console w \<Longrightarrow> notdone n w'"
  by (simp add: notdone_def)

lemma keeps_notdone_log: "msg \<noteq> done_msg \<Longrightarrow> keeps (notdone n) (console_log msg)"
  by (rule keepsI) (auto simp: console_log_def intro: notdone_log)

lemma keeps_notdone_query: "keeps (notdone n) (query st b)"
proof (rule keepsI)
  fix w res w'
  assume "notdone n w" and "query st b w = (res, w')"
  with query_in_cases [of st w res w'] query_out_cases [of st w res w']
  show "notdone n w'" by (cases b) (auto intro: notdone_same)
qed

lemma keeps_notdone_commit: "keeps (notdone n) transaction_commit"
  by (rule keepsI) (auto dest!: transaction_commit_cases intro: notdone_same)

lemma keeps_notdone_rollback: "keeps (notdone n) transaction_rollback"
  by (rule keepsI) (auto dest!: transaction_rollback_cases intro: notdone_same)

lemmas keeps_notdone = keeps_notdone_log keeps_notdone_query keeps_notdone_commit keeps_notdone_rollback

lemma keeps_notdone_restoreFromBackup: "keeps (notdone n) (restoreFromBackup b t)"
  unfolding restoreFromBackup_def Let_def
  by (intro keeps_rules keeps_notdone) (simp_all add: done_msg_def)

lemma keeps_notdone_migration_failed: "keeps (notdone n) (migration_failed g s e)"
  unfolding migration_failed_def
  by (intro keeps_rules keeps_notdone keeps_notdone_restoreFromBackup) (simp_all add: done_msg_def)

lemma stage_frame:
  "stage n C f w \<Longrightarrow> console w' = console w \<Longrightarrow> committed w' = committed w \<Longrightarrow>
   transaction w' = transaction w \<Longrightarrow> stage n C f w'"
  by (simp add: stage_def notdone_def)

lemma stage_log:
  "msg \<noteq> done_msg \<Longrightarrow> triple (stage n C f) (console_log msg) (\<lambda>_. stage n C f) (notdone n)"
  by (rule tripleI) (auto simp: console_log_def stage_def intro: notdone_log)

lemma stage_checkColumnExists:
  "triple (stage n C f) (checkColumnExists t c)
     (\<lambda>ex w. stage n C f w \<and> (ex \<longrightarrow> has_col (committed w) t c)) (notdone n)"
proof (rule tripleI)
  fix w res w'
  assume st: "stage n C f w" and run: "checkColumnExists t c w = (res, w')"
  from checkColumnExists_cases [OF run] obtain ex where
    res: "res = Inr ex" and c: "committed w' = committed w" and t: "transaction w' = transaction w"
    and ex: "ex \<longrightarrow> has_col (committed w) t c"
    and log: "console w' = console w \<or>
      console w' = console w @ [''Error checking if column '' @ c @ '' exists in table '' @ t @ '':'']"
    by blast
  have "notdone n w'"
    using log stage_notdone [OF st] by (auto simp: notdone_def done_msg_def)
  with st c t have "stage n C f w'" by (simp add: stage_def)
  with res ex c show "case res of Inl e \<Rightarrow> notdone n w'
      | Inr ex \<Rightarrow> stage n C f w' \<and> (ex \<longrightarrow> has_col (committed w') t c)"
    by simp
qed

lemma stage_checkTableExists:
  "triple (stage n C f) (checkTableExists t) (\<lambda>_. stage n C f) (notdone n)"
proof (rule tripleI)
  fix w res w'
  assume st: "stage n C f w" and run: "checkTableExists t w = (res, w')"
  from checkTableExists_cases [OF run] obtain ex where
    res: "res = Inr ex" and c: "committed w' = committed w" and t: "transaction w' = transaction w"
    and log: "console w' = console w \<or>
      console w' = console w @ [''Error checking if table '' @ t @ '' exists:'']"
    by blast
  have "notdone n w'"
    using log stage_notdone [OF st] by (auto simp: notdone_def done_msg_def)
  with st c t have "stage n C f w'" by (simp add: stage_def)
  with res show "case res of Inl e \<Rightarrow> notdone n w' | Inr ex \<Rightarrow> stage n C f w'"
    by simp
qed

lemma map_of_snoc_other: "k \<noteq> c \<Longrightarrow> map_of (r @ [(c, v)]) k = map_of r k"
  by (simp add: map_add_def split: option.splits)

lemma bestStreak_ge_count_snoc:
  "bestStreak_ge_count r \<Longrightarrow> c \<noteq> ''count'' \<Longrightarrow> c \<noteq> ''bestStreak'' \<Longrightarrow> bestStreak_ge_count (r @ [(c, v)])"
proof -
  assume inv: "bestStreak_ge_count r" and c: "c \<noteq> ''count''" "c \<noteq> ''bestStreak''"
  have "map_of (r @ [(c, v)]) ''count'' = map_of r ''count''"
    using c by (intro map_of_snoc_other) auto
  moreover have "map_of (r @ [(c, v)]) ''bestStreak'' = map_of r ''bestStreak''"
    using c by (intro map_of_snoc_other) auto
  ultimately show ?thesis using inv unfolding bestStreak_ge_count_def by (simp only:)
qed

lemma run_addition_rows_ok:
  assumes "run_statement (AlterTableAddColumn t c ty) d = Inr (r, d')"
    and "rows_ok d" and "has_col d ''Streaks'' ''count''" and "has_col d ''Streaks'' ''bestStreak''"
  shows "rows_ok d'"
proof (cases "t = ''Streaks''")
  case True
  with assms show ?thesis
    by (auto simp: rows_ok_def has_col_def intro!: bestStreak_ge_count_snoc split: option.splits if_splits)
next
  case False
  with assms show ?thesis
    by (auto simp: rows_ok_def split: option.splits if_splits)
qed

lemma map_of_set_bestStreak:
  "map_of (map (\<lambda>(k, v). if k = ''bestStreak'' then (k, x) else (k, v)) r) k =
     (if k = ''bestStreak'' then map_option (\<lambda>_. x) (map_of r k) else map_of r k)"
  by (induction r) auto

lemma bestStreak_ge_count_fix_bestStreak: "bestStreak_ge_count (fix_bestStreak r)"
  unfolding fix_bestStreak_def bestStreak_ge_count_def
  by (auto simp: map_of_set_bestStreak split: option.splits val.splits)

lemma run_update_rows_ok:
  assumes "run_statement UpdateBestStreak d = Inr (r, d')"
  shows "rows_ok d' \<and> has_col d' ''Streaks'' ''count'' \<and> has_col d' ''Streaks'' ''bestStreak''"
  using assms
  by (auto simp: rows_ok_def has_col_def bestStreak_ge_count_fix_bestStreak split: option.splits if_splits)

lemma stage_query_add:
  "triple (stage n C f) (query (AlterTableAddColumn t c ty) True)
     (\<lambda>_. stage n (insert (t, c) C) f) (notdone n)"
proof (rule tripleI)
  fix w res w'
  assume st: "stage n C f w" and run: "query (AlterTableAddColumn t c ty) True w = (res, w')"
  note eff = query_in_cases [OF run]
  then have nd: "notdone n w'" using stage_notdone [OF st] by (auto intro: notdone_same)
  show "case res of Inl e \<Rightarrow> notdone n w' | Inr x \<Rightarrow> stage n (insert (t, c) C) f w'"
  proof (cases res)
    case (Inl e)
    with nd show ?thesis by simp
  next
    case (Inr x)
    with eff obtain T T' where T: "transaction w = Some T"
      and rs: "run_statement (AlterTableAddColumn t c ty) T = Inr (x, T')"
      and T': "transaction w' = Some T'" and cm: "committed w' = committed w"
      by auto
    have new: "has_col T' t c"
      using rs by (auto simp: has_col_def split: option.splits if_splits)
    have mono: "\<And>t c. has_col T t c \<Longrightarrow> has_col T' t c"
      using rs by (rule run_statement_has_col)
    have "stage n (insert (t, c) C) f w'"
      using st T T' cm nd new mono run_addition_rows_ok [OF rs]
      unfolding stage_def by (auto simp: )
    with Inr show ?thesis by simp
  qed
qed

lemma stage_update:
  "triple (stage n C f) (query UpdateBestStreak True) (\<lambda>_. stage n C True) (notdone n)"
proof (rule tripleI)
  fix w res w'
  assume st: "stage n C f w" and run: "query UpdateBestStreak True w = (res, w')"
  note eff = query_in_cases [OF run]
  then have nd: "notdone n w'" using stage_notdone [OF st] by (auto intro: notdone_same)
  show "case res of Inl e \<Rightarrow> notdone n w' | Inr x \<Rightarrow> stage n C True w'"
  proof (cases res)
    case (Inl e)
    with nd show ?thesis by simp
  next
    case (Inr x)
    with eff obtain T T' where T: "transaction w = Some T"
      and rs: "run_statement UpdateBestStreak T = Inr (x, T')"
      and T': "transaction w' = Some T'" and cm: "committed w' = committed w"
      by auto
    have mono: "\<And>t c. has_col T t c \<Longrightarrow> has_col T' t c"
      using rs by (rule run_statement_has_col)
    have "stage n C True w'"
      using st T T' cm nd mono run_update_rows_ok [OF rs]
      unfolding stage_def by auto
    with Inr show ?thesis by simp
  qed
qed

lemma run_select_same: "run_statement (SelectAll t) d = Inr (r, d') \<Longrightarrow> d' = d"
  by (auto split: option.splits)

lemma stage_backupTable:
  "triple (stage n C f) (backupTable t) (\<lambda>_. stage n C f) (notdone n)"
proof (rule tripleI)
  fix w res w'
  assume st: "stage n C f w" and run: "backupTable t w = (res, w')"
  obtain r0 w0 where q: "query (SelectAll t) True w = (r0, w0)"
    by (cases "query (SelectAll t) True w")
  note eff = query_in_cases [OF q]
  show "case res of Inl e \<Rightarrow> notdone n w' | Inr x \<Rightarrow> stage n C f w'"
  proof (cases r0)
    case (Inl e)
    with run q have "res = Inl e"
      and "w' = w0\<lparr>console := console w0 @ [''Error backing up table '' @ t @ '':'']\<rparr>"
      by (auto simp: backupTable_def try_catch_def await_def console_log_def throw_def)
    moreover have "notdone n w0" using eff stage_notdone [OF st] by (auto intro: notdone_same)
    ultimately show ?thesis by (auto intro!: notdone_log simp: done_msg_def)
  next
    case (Inr x)
    with run q have res: "res = Inr (case x of Rows rs \<Rightarrow> rs | _ \<Rightarrow> [])" and w': "w' = w0"
      by (auto simp: backupTable_def try_catch_def await_def return_def)
    from eff Inr obtain T T' where T: "transaction w = Some T"
      and rs: "run_statement (SelectAll t) T = Inr (x, T')"
      and T': "transaction w0 = Some T'" and cm: "committed w0 = committed w"
      and co: "console w0 = console w"
      by auto
    have "T' = T" using rs by (rule run_select_same)
    with st T T' cm co have "stage n C f w0" by (auto intro: stage_frame)
    with res w' show ?thesis by simp
  qed
qed

lemma stage_commit:
  "covers C \<Longrightarrow>
   triple (stage n C True) transaction_commit
     (\<lambda>_ w. notdone n w \<and> migrated (committed w) \<and> rows_ok (committed w)) (notdone n)"
proof (rule tripleI)
  fix w res w'
  assume cov: "covers C" and st: "stage n C True w" and run: "transaction_commit w = (res, w')"
  note eff = transaction_commit_cases [OF run]
  then have nd: "notdone n w'" using stage_notdone [OF st] by (auto intro: notdone_same)
  show "case res of Inl e \<Rightarrow> notdone n w'
        | Inr x \<Rightarrow> notdone n w' \<and> migrated (committed w') \<and> rows_ok (committed w')"
  proof (cases res)
    case (Inl e)
    with nd show ?thesis by simp
  next
    case (Inr x)
    with eff obtain T where T: "transaction w = Some T" and cm: "committed w' = T"
      by auto
    from st T have all: "\<forall>(t, c) \<in> C. has_col T t c" and ok: "rows_ok T"
      by (auto simp: stage_def)
    from all cov have "migrated T"
      unfolding migrated_def covers_def by fastforce
    with Inr nd ok cm show ?thesis by simp
  qed
qed

lemma stage_commit_skip:
  "triple (stage n C f) transaction_commit (\<lambda>_. notdone n) (notdone n)"
  using keeps_notdone_commit [of n] unfolding keeps_def
  by (rule triple_conseq) (auto intro: stage_notdone)

lemma achieved_log_done:
  "triple (\<lambda>w. notdone n w \<and> migrated (committed w) \<and> rows_ok (committed w))
     (console_log done_msg) (\<lambda>_. achieved n) E"
  by (rule tripleI) (auto simp: console_log_def achieved_def notdone_def)

lemma stage_ensure:
  assumes "msg \<noteq> done_msg"
  shows "triple (\<lambda>w. stage n C f w \<and> (ex \<longrightarrow> has_col (committed w) t c))
           (if \<not> ex then await (query (AlterTableAddColumn t c ty) True) (\<lambda>_. console_log msg)
            else return ())
           (\<lambda>_. stage n (insert (t, c) C) f) (notdone n)"
proof (cases ex)
  case False
  have "triple (stage n C f) (await (query (AlterTableAddColumn t c ty) True) (\<lambda>_. console_log msg))
          (\<lambda>_. stage n (insert (t, c) C) f) (notdone n)"
    by (rule triple_await [OF stage_query_add]) (rule stage_log [OF assms])
  then show ?thesis using False by simp
next
  case True
  have "triple (\<lambda>w. stage n C f w \<and> has_col (committed w) t c) (return ())
          (\<lambda>_. stage n (insert (t, c) C) f) (notdone n)"
    by (rule triple_return) (auto simp: stage_def)
  then show ?thesis using True by simp
qed

lemma stage_weaken:
  "C' \<subseteq> C \<Longrightarrow> stage n C f w \<Longrightarrow> stage n C' f w"
  unfolding stage_def by blast

lemma stage_columnsToAdd_loop:
  "triple (stage n C f) (columnsToAdd_loop cols)
     (\<lambda>_. stage n (C \<union> (\<lambda>c. (''Streaks'', c)) ` set (map fst cols)) f) (notdone n)"
proof (induction cols arbitrary: C)
  case Nil
  show ?case by (simp add: triple_return)
next
  case (Cons col cols)
  obtain c ty where col: "col = (c, ty)" by (cases col)
  have msg: "''Added '' @ c @ '' column to Streaks'' \<noteq> done_msg"
    by (simp add: done_msg_def)
  have rest: "triple (stage n (insert (''Streaks'', c) C) f) (columnsToAdd_loop cols)
     (\<lambda>_. stage n (C \<union> (\<lambda>c. (''Streaks'', c)) ` set (map fst (col # cols))) f) (notdone n)"
    by (rule triple_conseq [OF Cons.IH [of "insert (''Streaks'', c) C"]])
       (auto simp: col elim: stage_weaken [rotated])
  show ?case
    unfolding col columnsToAdd_loop.simps
    by (rule triple_await [OF stage_checkColumnExists], rule triple_await [OF stage_ensure [OF msg]])
       (rule rest [unfolded col])
qed

lemma stage_requiredColumns_loop:
  "triple (stage n C f) (requiredColumns_loop cols)
     (\<lambda>_. stage n (C \<union> (\<lambda>c. (''Streaks'', c)) ` set (map fst cols)) f) (notdone n)"
proof (induction cols arbitrary: C)
  case Nil
  show ?case by (simp add: triple_return)
next
  case (Cons col cols)
  obtain c ty where col: "col = (c, ty)" by (cases col)
  have msg: "''Added missing column '' @ c @ '' to Streaks'' \<noteq> done_msg"
    by (simp add: done_msg_def)
  have rest: "triple (stage n (insert (''Streaks'', c) C) f) (requiredColumns_loop cols)
     (\<lambda>_. stage n (C \<union> (\<lambda>c. (''Streaks'', c)) ` set (map fst (col # cols))) f) (notdone n)"
    by (rule triple_conseq [OF Cons.IH [of "insert (''Streaks'', c) C"]])
       (auto simp: col elim: stage_weaken [rotated])
  show ?case
    unfolding col requiredColumns_loop.simps
    by (rule triple_await [OF stage_checkColumnExists], rule triple_await [OF stage_ensure [OF msg]])
       (rule rest [unfolded col])
qed

lemma stage_migration_steps:
  "triple (stage n {} False) migration_steps (\<lambda>_. achieved n) (notdone n)"
  unfolding migration_steps_def
  apply (rule triple_await [OF stage_log], simp add: done_msg_def)
  apply (rule triple_await [OF stage_checkColumnExists])
  apply (rule triple_await [OF stage_ensure], simp add: done_msg_def)
  apply (rule triple_await [OF stage_log], simp add: done_msg_def)
  apply (rule triple_await [OF stage_columnsToAdd_loop])
  apply (rule triple_await [OF stage_log], simp add: done_msg_def)
  apply (rule triple_await [OF stage_update])
  apply (rule triple_await [OF stage_requiredColumns_loop])
  apply (rule triple_await [OF stage_commit])
   apply (simp add: covers_def requiredColumns_def)
  apply (rule achieved_log_done [unfolded done_msg_def])
  done

lemma notdone_migration_failed:
  "triple (notdone n) (migration_failed g s e) (\<lambda>_. achieved n) (notdone n)"
  using keeps_notdone_migration_failed [of n g s e] unfolding keeps_def
  by (rule triple_conseq) (auto intro: notdone_achieved)

lemma stage_migrateDatabase_try:
  "triple (stage n {} False) migrateDatabase_try (\<lambda>_. achieved n) (notdone n)"
  unfolding migrateDatabase_try_def
  apply (rule triple_try_catch [where R = "notdone n"])
   apply (rule triple_await [OF stage_log], simp add: done_msg_def)
   apply (rule triple_await [OF stage_checkTableExists])
   apply (rule triple_await [OF stage_checkTableExists])
   apply (rule triple_if)
    apply (rule triple_await [OF stage_log], simp add: done_msg_def)
    apply (rule triple_conseq [OF stage_commit_skip], assumption, erule notdone_achieved, assumption)
   apply (rule triple_await [OF stage_log], simp add: done_msg_def)
   apply (rule triple_await [OF stage_backupTable])
   apply (rule triple_await [OF stage_backupTable])
   apply (rule triple_try_catch [OF stage_migration_steps])
   apply (rule notdone_migration_failed)
  apply (rule triple_conseq [where Q' = "\<lambda>_. notdone n" and E' = "notdone n" and P' = "notdone n"])
     apply (fold keeps_def)
     apply (intro keeps_rules keeps_notdone, simp add: done_msg_def)
    apply (auto intro: notdone_achieved)
  done

lemma first_run_achieved:
  assumes run: "migrateDatabase w = (res, w')"
  shows "achieved (length (console w)) w'"
proof -
  let ?n = "length (console w)"
  obtain r0 w0 where start: "sequelize_transaction w = (r0, w0)"
    by (cases "sequelize_transaction w")
  note eff = sequelize_transaction_cases [OF start]
  show ?thesis
  proof (cases r0)
    case (Inl e)
    with run start have "w' = w0" by (simp add: migrateDatabase_def await_def)
    with eff show ?thesis by (simp add: achieved_def)
  next
    case (Inr u)
    have "stage ?n {} False w0"
      using eff Inr by (auto simp: stage_def notdone_def)
    moreover have "migrateDatabase_try w0 = (res, w')"
      using run start Inr by (simp add: migrateDatabase_def await_def)
    ultimately show ?thesis
      using tripleD [OF stage_migrateDatabase_try, of ?n w0 res w']
      by (auto intro: notdone_achieved split: sum.splits)
  qed
qed

section \<open>Idempotence of the migration\<close>

lemma old_world_completes:
  "''Migration completed successfully'' \<in>
     set (drop (length (console old_world)) (console (snd (migrateDatabase old_world))))"
  by code_simp

lemma old_world_additions:
  "column_additions (trace (snd (migrateDatabase old_world))) =
     [AlterTableAddColumn ''GuildConfigs'' ''streakStreakEnabled'' ''BOOLEAN NOT NULL DEFAULT true'',
      AlterTableAddColumn ''Streaks'' ''lastUpdated'' ''DATE NOT NULL DEFAULT CURRENT_TIMESTAMP'']"
  by code_simp

text \<open>
  C3.  From any world (any schema, any faults to come), if a run of \<open>migrateDatabase\<close> logs
  that the migration completed, then the run that follows it adds no column: none of the
  statements it sends is an \<open>ALTER TABLE ... ADD COLUMN\<close> that succeeds.
\<close>

theorem migrateDatabase_idempotent:
  assumes "migrateDatabase w0 = (res1, w1)"
    and "''Migration completed successfully'' \<in> set (drop (length (console w0)) (console w1))"
    and "migrateDatabase w1 = (res2, w2)"
  shows "column_additions (drop (length (trace w1)) (trace w2)) = []"
proof -
  from first_run_achieved [OF assms(1)] assms(2) have "migrated (committed w1)"
    by (simp add: achieved_def done_msg_def)
  then show ?thesis using assms(3) by (rule second_run_no_additions)
qed

theorem migrateDatabase_idempotent_witness:
  "length (column_additions (trace (snd (migrateDatabase old_world)))) = 2 \<and>
   column_additions
     (drop (length (trace (snd (migrateDatabase old_world))))
        (trace (snd (migrateDatabase (snd (migrateDatabase old_world)))))) = []"
  using migrateDatabase_idempotent
          [OF prod.collapse [symmetric] old_world_completes prod.collapse [symmetric]]
  by (simp add: old_world_additions)

section \<open>A missing table\<close>

lemma skip_without_faults:
  assumes "committed w ''GuildConfigs'' = None \<or> committed w ''Streaks'' = None"
    and "faults w = []"
  shows "fst (migrateDatabase w) = Inr () \<and>
         drop (length (trace w)) (trace (snd (migrateDatabase w))) =
           [(StartTransaction, True), (SelectTableExists ''GuildConfigs'', True),
            (SelectTableExists ''Streaks'', True), (Commit, True)]"
  using assms
  by (auto simp: migrateDatabase_def migrateDatabase_try_def await_def try_catch_def
        console_log_def checkTableExists_def query_def sent_def pending_def return_def
        sequelize_transaction_def transaction_commit_def)

text \<open>
  C10.  When GuildConfigs or Streaks does not exist, a run of \<open>migrateDatabase\<close> leaves the
  committed database as it was and sends nothing but the start of the transaction, the two
  table checks and the end of the transaction: no \<open>ALTER\<close>, \<open>UPDATE\<close>, \<open>DELETE\<close> or \<open>INSERT\<close>.
  It returns normally with the transaction committed, unless the start or the commit of the
  transaction itself failed; without faults it returns after exactly these four statements.
\<close>

theorem migrateDatabase_skips_without_tables:
  assumes absent: "committed w ''GuildConfigs'' = None \<or> committed w ''Streaks'' = None"
    and run: "migrateDatabase w = (res, w')"
  shows "committed w' = committed w \<and>
         fst ` set (drop (length (trace w)) (trace w')) \<subseteq> skip_statements \<and>
         (res = Inr () \<and> (Commit, True) \<in> set (drop (length (trace w)) (trace w')) \<or>
          (StartTransaction, False) \<in> set (drop (length (trace w)) (trace w')) \<or>
          (Commit, False) \<in> set (drop (length (trace w)) (trace w'))) \<and>
         (faults w = [] \<longrightarrow>
            res = Inr () \<and>
            drop (length (trace w)) (trace w') =
              [(StartTransaction, True), (SelectTableExists ''GuildConfigs'', True),
               (SelectTableExists ''Streaks'', True), (Commit, True)])"
proof -
  have quiet: "faults w = [] \<longrightarrow>
            res = Inr () \<and>
            drop (length (trace w)) (trace w') =
              [(StartTransaction, True), (SelectTableExists ''GuildConfigs'', True),
               (SelectTableExists ''Streaks'', True), (Commit, True)]"
    using skip_without_faults [OF absent] run by auto
  obtain r0 w1 where start: "sequelize_transaction w = (r0, w1)"
    by (cases "sequelize_transaction w")
  note e1 = sequelize_transaction_cases [OF start]
  show ?thesis
  proof (cases r0)
    case (Inl e)
    with run start have "w' = w1" by (simp add: migrateDatabase_def await_def)
    with e1 Inl quiet show ?thesis by (auto simp: skip_statements_def)
  next
    case r0: (Inr u)
    from e1 r0 have c1: "committed w1 = committed w" and t1: "transaction w1 = Some (committed w)"
      and tr1: "trace w1 = trace w @ [(StartTransaction, True)]"
      by auto
    define w2 where "w2 = w1\<lparr>console := console w1 @ [''Starting database migration...'']\<rparr>"
    obtain rg w3 where g: "checkTableExists ''GuildConfigs'' w2 = (rg, w3)"
      by (cases "checkTableExists ''GuildConfigs'' w2")
    note e3 = checkTableExists_cases [OF g]
    then obtain gx where rg: "rg = Inr gx" and gx: "gx \<longrightarrow> committed w2 ''GuildConfigs'' \<noteq> None"
      by blast
    obtain rs w4 where s: "checkTableExists ''Streaks'' w3 = (rs, w4)"
      by (cases "checkTableExists ''Streaks'' w3")
    note e4 = checkTableExists_cases [OF s]
    then obtain sx where rs: "rs = Inr sx" and sx: "sx \<longrightarrow> committed w3 ''Streaks'' \<noteq> None"
      by blast
    define w5 where "w5 = w4\<lparr>console := console w4 @ [''Tables do not exist, skipping migration'']\<rparr>"
    have c5: "committed w5 = committed w" and t5: "transaction w5 = Some (committed w)"
      using e3 e4 c1 t1 by (simp_all add: w5_def w2_def)
    have tr5: "fst ` set (drop (length (trace w)) (trace w5)) \<subseteq> skip_statements"
      and tr5': "length (trace w) \<le> length (trace w5)"
      using e3 e4 tr1 by (auto simp: w5_def w2_def skip_statements_def)
    have skip: "\<not> gx \<or> \<not> sx"
      using absent gx sx e3 c1 by (auto simp: w2_def)
    obtain r6 w6 where cm: "transaction_commit w5 = (r6, w6)"
      by (cases "transaction_commit w5")
    note e6 = transaction_commit_cases [OF cm]
    have body: "migrateDatabase w =
      (case r6 of
         Inl e \<Rightarrow> (await (console_log ''Migration failed:'') (\<lambda>_.
                          await transaction_rollback (\<lambda>_. throw e))) w6
       | Inr x \<Rightarrow> (Inr x, w6))"
      using skip g s rg rs cm r0
      by (auto simp: migrateDatabase_def migrateDatabase_try_def await_def try_catch_def start
            console_log_def w2_def [symmetric] w5_def [symmetric] split: sum.splits)
    show ?thesis
    proof (cases r6)
      case (Inr x)
      with run body have "res = Inr ()" "w' = w6" by auto
      with e6 Inr tr5 tr5' c5 t5 quiet show ?thesis
        by (auto simp: skip_statements_def)
    next
      case (Inl e)
      define w7 where "w7 = w6\<lparr>console := console w6 @ [''Migration failed:'']\<rparr>"
      from e6 Inl t5 have t6: "transaction w6 = None" and c6: "committed w6 = committed w"
        and tr6: "trace w6 = trace w5 @ [(Commit, False)]"
        using c5 by auto
      have "transaction_rollback w7 = (Inl finished_error, w7)"
        using t6 by (simp add: transaction_rollback_def w7_def)
      with run body Inl have "w' = w7"
        by (simp add: await_def console_log_def w7_def [symmetric])
      with c6 tr6 tr5 tr5' quiet show ?thesis
        by (auto simp: skip_statements_def w7_def)
    qed
  qed
qed

theorem migrateDatabase_skips_without_tables_witness:
  "committed empty_world ''Streaks'' = None \<and>
   committed (snd (migrateDatabase empty_world)) = committed empty_world \<and>
   fst (migrateDatabase empty_world) = Inr () \<and>
   trace (snd (migrateDatabase empty_world)) =
     [(StartTransaction, True), (SelectTableExists ''GuildConfigs'', True),
      (SelectTableExists ''Streaks'', True), (Commit, True)]"
  using migrateDatabase_skips_without_tables [of empty_world, OF _ prod.collapse [symmetric]]
  by (simp add: empty_world_def)

section \<open>The best streak and the count\<close>

lemma beforeSave_changed_count:
  "''count'' \<in> changed streak \<Longrightarrow> count (beforeSave streak) \<le> bestStreak (beforeSave streak)"
  by (simp add: beforeSave_def)

lemma save_assign_count:
  "count streak \<le> bestStreak streak \<Longrightarrow>
   count (fst (Streak_save (assign_count n streak) tbl)) \<le>
   bestStreak (fst (Streak_save (assign_count n streak) tbl))"
  by (auto simp: Streak_save_def Let_def assign_count_def beforeSave_def)

lemma count_given: "''count'' \<in> given_keys vs \<longleftrightarrow> v_count vs \<noteq> None"
  by (simp add: given_keys_def)

lemma create_without_bestStreak:
  assumes "v_bestStreak vs = None" and "Streak_create now vs tbl = (Inr streak, tbl')"
  shows "count streak \<le> bestStreak streak"
proof -
  from assms(2) obtain built where b: "Streak_build now vs = Inr built"
    and s: "count streak = count (beforeSave built)" "bestStreak streak = bestStreak (beforeSave built)"
    by (auto simp: Streak_create_def Let_def split: sum.splits if_splits)
  from b assms(1) have "bestStreak built = 1"
    and "changed built = given_keys vs"
    and "count built = (case v_count vs of None \<Rightarrow> 1 | Some n \<Rightarrow> n)"
    by (auto simp: Streak_build_def split: sum.splits option.splits)
  then have "count (beforeSave built) \<le> bestStreak (beforeSave built)"
    by (cases "v_count vs") (simp_all add: beforeSave_def count_given)
  with s show ?thesis by simp
qed

lemma old_world_rows:
  "map_option rows (committed (snd (migrateDatabase old_world)) ''Streaks'') =
     Some [[(''id'', VInt 1), (''guildId'', VStr ''g1''), (''userId'', VStr ''u1''),
            (''triggerWord'', VStr ''daily''), (''count'', VInt 7), (''bestStreak'', VInt 7),
            (''streakStreak'', VInt 0), (''lastStreakDate'', VNull), (''lastUpdated'', VNull)]]"
  by code_simp

text \<open>
  C1, as stated, has the invariant hold after every mutation through the model layer.  The
  hook looks at \<open>bestStreak\<close> only when \<open>count\<close> has changed: assigning a smaller best streak
  to a loaded instance and saving it stores a best streak of 2 beside a count of 5.
\<close>

theorem bestStreak_lowered_counterexample:
  "fst (Streak_save (assign_bestStreak 2 loaded_streak)
          \<lparr>streak_rows = [loaded_streak], next_id = 2\<rparr>) =
     \<lparr>id_col = Some 1, guildId = ''g1'', userId = ''u1'', triggerWord = ''daily'',
      count = 5, bestStreak = 2, streakStreak = 0, lastStreakDate = None,
      lastUpdated = 0, changed = {}\<rparr>"
  by code_simp

text \<open>
  C1, amended.  The best streak is at least the count after the \<open>beforeSave\<close> hook whenever
  the save changes \<open>count\<close>; after a save that only assigned \<open>count\<close> to an instance for
  which the invariant held; and for a streak created without a value for \<open>bestStreak\<close>.
  After a run of the migration that logs its completion, it holds for every row of Streaks
  whose \<open>count\<close> and \<open>bestStreak\<close> are integers.
\<close>

theorem bestStreak_ge_count_where_enforced:
  "(''count'' \<in> changed streak \<longrightarrow> count (beforeSave streak) \<le> bestStreak (beforeSave streak)) \<and>
   (count streak \<le> bestStreak streak \<longrightarrow>
      count (fst (Streak_save (assign_count n streak) tbl)) \<le>
      bestStreak (fst (Streak_save (assign_count n streak) tbl))) \<and>
   (v_bestStreak vs = None \<and> Streak_create now vs tbl = (Inr created, tbl') \<longrightarrow>
      count created \<le> bestStreak created) \<and>
   (migrateDatabase w = (res, w') \<and>
    ''Migration completed successfully'' \<in> set (drop (length (console w)) (console w')) \<longrightarrow>
      (\<forall>tb. committed w' ''Streaks'' = Some tb \<longrightarrow>
            (\<forall>r \<in> set (rows tb). bestStreak_ge_count r)))"
proof (intro conjI impI allI)
  assume "''count'' \<in> changed streak"
  then show "count (beforeSave streak) \<le> bestStreak (beforeSave streak)"
    by (rule beforeSave_changed_count)
next
  assume "count streak \<le> bestStreak streak"
  then show "count (fst (Streak_save (assign_count n streak) tbl)) \<le>
      bestStreak (fst (Streak_save (assign_count n streak) tbl))"
    by (rule save_assign_count)
next
  assume "v_bestStreak vs = None \<and> Streak_create now vs tbl = (Inr created, tbl')"
  then show "count created \<le> bestStreak created"
    by (blast intro: create_without_bestStreak)
next
  fix tb
  assume run: "migrateDatabase w = (res, w') \<and>
    ''Migration completed successfully'' \<in> set (drop (length (console w)) (console w'))"
    and tb: "committed w' ''Streaks'' = Some tb"
  from run have "achieved (length (console w)) w'"
    by (blast intro: first_run_achieved)
  with run have "rows_ok (committed w')"
    by (simp add: achieved_def done_msg_def)
  with tb show "\<forall>r \<in> set (rows tb). bestStreak_ge_count r"
    by (simp add: rows_ok_def)
qed

theorem bestStreak_ge_count_where_enforced_witness:
  "count loaded_streak \<le> bestStreak loaded_streak \<and>
   count (fst (Streak_save (assign_count 9 loaded_streak)
                 \<lparr>streak_rows = [loaded_streak], next_id = 2\<rparr>)) \<le>
   bestStreak (fst (Streak_save (assign_count 9 loaded_streak)
                      \<lparr>streak_rows = [loaded_streak], next_id = 2\<rparr>)) \<and>
   bestStreak_ge_count
     [(''id'', VInt 1), (''guildId'', VStr ''g1''), (''userId'', VStr ''u1''),
      (''triggerWord'', VStr ''daily''), (''count'', VInt 7), (''bestStreak'', VInt 7),
      (''streakStreak'', VInt 0), (''lastStreakDate'', VNull), (''lastUpdated'', VNull)]"
proof -
  note inst = bestStreak_ge_count_where_enforced
    [where streak = loaded_streak and n = 9
       and tbl = "\<lparr>streak_rows = [loaded_streak], next_id = 2\<rparr>"
       and w = old_world and res = "fst (migrateDatabase old_world)"
       and w' = "snd (migrateDatabase old_world)"]
  have held: "count loaded_streak \<le> bestStreak loaded_streak"
    by (simp add: loaded_streak_def)
  obtain tb where tb: "committed (snd (migrateDatabase old_world)) ''Streaks'' = Some tb"
    and r: "rows tb =
     [[(''id'', VInt 1), (''guildId'', VStr ''g1''), (''userId'', VStr ''u1''),
       (''triggerWord'', VStr ''daily''), (''count'', VInt 7), (''bestStreak'', VInt 7),
       (''streakStreak'', VInt 0), (''lastStreakDate'', VNull), (''lastUpdated'', VNull)]]"
    using old_world_rows by auto
  from inst held old_world_completes tb r show ?thesis by simp
qed

section \<open>The keys of the Streak table\<close>

lemma unique_keys_Streak: "unique_keys Streak_attributes = [[''id'']]"
  by (simp add: unique_keys_def Streak_attributes_def)

lemma Streak_create_distinct_ids:
  assumes "distinct (map id_col (streak_rows tbl))"
  shows "distinct (map id_col (streak_rows (snd (Streak_create now vs tbl))))"
proof (cases "Streak_build now vs")
  case (Inl e)
  with assms show ?thesis by (simp add: Streak_create_def)
next
  case (Inr built)
  define hooked where "hooked = beforeSave built"
  define stored where "stored = hooked\<lparr>id_col := Some (case id_col hooked of
      None \<Rightarrow> next_id tbl | Some i \<Rightarrow> i), changed := {}\<rparr>"
  show ?thesis
  proof (cases "conflicts [''id''] stored (streak_rows tbl)")
    case True
    with Inr assms show ?thesis
      by (simp add: Streak_create_def Let_def unique_keys_Streak hooked_def stored_def)
  next
    case False
    then have "id_col stored \<notin> set (map id_col (streak_rows tbl))"
      by (auto simp: conflicts_def Streak_get_def stored_def split: option.splits)
    with Inr False assms show ?thesis
      by (simp add: Streak_create_def Let_def unique_keys_Streak hooked_def stored_def)
  qed
qed

lemma create_all_distinct_ids:
  "distinct (map id_col (streak_rows tbl)) \<Longrightarrow>
   distinct (map id_col (streak_rows (create_all now vss tbl)))"
  by (induction vss arbitrary: tbl) (simp_all add: Streak_create_distinct_ids)

text \<open>
  C2, as stated, allows at most one row for each guild, user and trigger word.  The model
  definition declares no such key: creating a streak twice for the same triple stores two
  rows that differ only in their id.
\<close>

theorem Streak_triple_twice_counterexample:
  "streak_rows (create_all 0 [first_trigger, first_trigger] empty_Streak_table) =
     [\<lparr>id_col = Some 1, guildId = ''g1'', userId = ''u1'', triggerWord = ''daily'',
       count = 1, bestStreak = 1, streakStreak = 0, lastStreakDate = None,
       lastUpdated = 0, changed = {}\<rparr>,
      \<lparr>id_col = Some 2, guildId = ''g1'', userId = ''u1'', triggerWord = ''daily'',
       count = 1, bestStreak = 1, streakStreak = 0, lastStreakDate = None,
       lastUpdated = 0, changed = {}\<rparr>]"
  by code_simp

text \<open>
  C2, amended.  The only uniqueness constraint of the Streak table is its primary key: the
  rows stored by any sequence of \<open>create\<close> calls have pairwise different ids, and neither
  the definition nor the table restricts the rows of one guild, user and trigger word.
\<close>

theorem Streak_primary_key_only:
  "unique_keys Streak_attributes = [[''id'']] \<and>
   distinct (map id_col (streak_rows (create_all now vss empty_Streak_table)))"
  by (simp add: unique_keys_Streak create_all_distinct_ids empty_Streak_table_def)

theorem Streak_primary_key_only_witness:
  "distinct (map id_col (streak_rows (create_all 0 [first_trigger, first_trigger] empty_Streak_table))) \<and>
   map id_col (streak_rows (create_all 0 [first_trigger, first_trigger] empty_Streak_table)) = [Some 1, Some 2]"
proof -
  have "map id_col (streak_rows (create_all 0 [first_trigger, first_trigger] empty_Streak_table)) = [Some 1, Some 2]"
    by code_simp
  with Streak_primary_key_only [of 0 "[first_trigger, first_trigger]"] show ?thesis by simp
qed

section \<open>A failure inside the migration\<close>

text \<open>
  C4 has a failure of the migration, and a failure of the restore, reach the caller as an
  error.  Here the \<open>UPDATE\<close> fails, the rollback succeeds and the restore fails at its first
  statement: \<open>migrateDatabase\<close> returns normally, \<open>initializeDatabase\<close> goes on to
  synchronise the models and returns normally as well, and the failures are on the console
  only.
\<close>

theorem failed_migration_is_swallowed:
  "fst (migrateDatabase update_and_restore_fail) = Inr () \<and>
   fst (initializeDatabase update_and_restore_fail) = Inr () \<and>
   trace (snd (initializeDatabase update_and_restore_fail)) =
     [(StartTransaction, True), (SelectTableExists ''GuildConfigs'', True),
      (SelectTableExists ''Streaks'', True), (SelectAll ''GuildConfigs'', True),
      (SelectAll ''Streaks'', True),
      (SelectColumnExists ''GuildConfigs'' ''streakStreakEnabled'', True),
      (SelectColumnExists ''Streaks'' ''streakStreak'', True),
      (SelectColumnExists ''Streaks'' ''lastStreakDate'', True),
      (SelectColumnExists ''Streaks'' ''bestStreak'', True),
      (UpdateBestStreak, False), (Rollback, True),
      (DeleteFrom ''GuildConfigs'', False), (Sync, True)] \<and>
   console (snd (initializeDatabase update_and_restore_fail)) =
     [''Starting database initialization...'', ''Starting database migration...'',
      ''Creating backups...'', ''Migrating GuildConfigs table...'',
      ''Migrating Streaks table...'', ''Updating existing streaks...'',
      ''Migration failed, rolling back changes:'',
      ''Error restoring table GuildConfigs from backup:'',
      ''Failed to restore from backups:'', ''Database synchronized successfully'']"
  by code_simp

end
